theory Spec2Isabelle
  imports Main "HOL-Library.Word"
begin

section \<open>Errors, wire values and Go values\<close>

text \<open>
  A Go \<^verbatim>\<open>error\<close> is an \<open>error option\<close>: \<open>None\<close> is \<^verbatim>\<open>nil\<close>.
  \<open>End\<close> is the sentinel \<^verbatim>\<open>objconv.End\<close>, \<open>RespError\<close> a decoded RESP error value,
  \<open>Failure\<close> any other error (I/O, conversion, \<^verbatim>\<open>fmt.Errorf\<close>) with its message.
\<close>

datatype error = End | RespError string | Failure string

text \<open>
  The values of the wire protocol (spec, section 6): simple string, error, integer, bulk
  string and array with its declared element count. \<open>Fault m\<close> is a place of the wire
  where reading fails with message \<open>m\<close> (malformed bytes, a timeout, a closed connection).
\<close>

datatype resp =
    SimpleString string
  | ErrorReply string
  | Integer int
  | BulkString string
  | Array "resp list"
  | Fault string

text \<open>The value types of \<^verbatim>\<open>objconv.Type\<close> that the parser reports.\<close>

datatype otype = Unknown | IntT | StringT | BytesT | ErrorT | ArrayT

text \<open>\<^verbatim>\<open>reflect.Kind\<close>, every kind of the Go runtime.\<close>

datatype kind =
    InvalidK | BoolK
  | IntK | Int8K | Int16K | Int32K | Int64K
  | UintK | Uint8K | Uint16K | Uint32K | Uint64K | UintptrK
  | Float32K | Float64K | Complex64K | Complex128K
  | ArrayK | ChanK | FuncK | InterfaceK | MapK | PtrK | SliceK | StringK | StructK
  | UnsafePointerK

text \<open>
  A \<^verbatim>\<open>reflect.Type\<close> as far as the code reads it: its kind, the kind of its elements
  (of a slice; \<open>InvalidK\<close> otherwise) and the text \<^verbatim>\<open>%s\<close> prints for it.
\<close>

record gotype =
  Kind :: kind
  Elem :: kind
  TypeString :: string

definition error_type :: gotype where
  "error_type = \<lparr>Kind = InterfaceK, Elem = InvalidK, TypeString = ''error''\<rparr>"

definition bytes_type :: gotype where
  "bytes_type = \<lparr>Kind = SliceK, Elem = Uint8K, TypeString = ''[]uint8''\<rparr>"

definition int_type :: gotype where
  "int_type = \<lparr>Kind = IntK, Elem = InvalidK, TypeString = ''int''\<rparr>"

definition int64_type :: gotype where
  "int64_type = \<lparr>Kind = Int64K, Elem = InvalidK, TypeString = ''int64''\<rparr>"

definition string_type :: gotype where
  "string_type = \<lparr>Kind = StringK, Elem = InvalidK, TypeString = ''string''\<rparr>"

text \<open>
  The destination of \<^verbatim>\<open>Next(dst interface{})\<close>: \<^verbatim>\<open>nil\<close>, or a pointer to a variable
  of some type (the interface documents that \<^verbatim>\<open>dst\<close> must be a pointer).
\<close>

datatype dst = NilDst | PtrTo gotype

typedecl float64

text \<open>
  What a call stored through the destination pointer. Integers are kept as the
  mathematical value of the variable after the store; \<open>FloatV k f\<close> is \<open>f\<close> stored in a
  variable of float kind \<open>k\<close>; \<open>OtherV v\<close> is the wire value \<open>v\<close> stored in a destination
  of a type the codec supports and this development does not look into.
\<close>

datatype goval =
    BoolV bool
  | IntV int
  | UintV nat
  | FloatV kind float64
  | StringV string
  | BytesV string
  | ErrorV error
  | OtherV resp

section \<open>The codec: parser and stream decoder\<close>

text \<open>
  The functions of the external packages the code calls and that the repository does
  not define, taken as parameters: what \<^verbatim>\<open>objconv.Decoder.Decode\<close> makes of a wire
  value for a \<^verbatim>\<open>*[]byte\<close> destination and for any other destination type,
  \<^verbatim>\<open>objutil.ParseInt\<close>, \<^verbatim>\<open>strconv.ParseUint(s, 10, 64)\<close> and
  \<^verbatim>\<open>strconv.ParseFloat(s, 64)\<close>. A failure is \<open>Inl\<close> of its message.
\<close>

record codec =
  decodeBytes :: "resp \<Rightarrow> string + string"
  decodeValue :: "resp \<Rightarrow> gotype \<Rightarrow> string + goval"
  ParseInt :: "string \<Rightarrow> string + 64 word"
  ParseUint :: "string \<Rightarrow> string + 64 word"
  ParseFloat :: "string \<Rightarrow> string + float64"

text \<open>
  Modelled from the spec: the parser of the serialization codec (\<^verbatim>\<open>resp.Parser\<close>, an
  external dependency that is not under src/), which the spec describes as exposing
  "parse next token type" and "decode next token into a typed value". Its state is the
  list of values still on the wire. \<open>ParseType\<close> looks at the next value without
  consuming it; \<open>ParseArrayBegin\<close> consumes an array's length marker and leaves its
  elements next on the wire.
\<close>

fun ParseType :: "resp list \<Rightarrow> otype \<times> error option" where
  "ParseType [] = (Unknown, Some (Failure ''EOF''))"
| "ParseType (Fault m # _) = (Unknown, Some (Failure m))"
| "ParseType (SimpleString _ # _) = (StringT, None)"
| "ParseType (ErrorReply _ # _) = (ErrorT, None)"
| "ParseType (Integer _ # _) = (IntT, None)"
| "ParseType (BulkString _ # _) = (BytesT, None)"
| "ParseType (Array _ # _) = (ArrayT, None)"

fun ParseArrayBegin :: "resp list \<Rightarrow> (nat \<times> error option) \<times> resp list" where
  "ParseArrayBegin (Array xs # rest) = ((length xs, None), xs @ rest)"
| "ParseArrayBegin p = ((0, Some (Failure ''not an array'')), p)"

text \<open>
  Modelled from the spec: \<^verbatim>\<open>objconv.Decoder.Decode\<close> ("decode next token into a typed
  value"). A \<^verbatim>\<open>nil\<close> destination discards the value; an error value decoded into a
  \<^verbatim>\<open>*error\<close> is that error; the other conversions are the codec's. A failure leaves
  the wire where it is.
\<close>

definition convert :: "codec \<Rightarrow> resp \<Rightarrow> gotype \<Rightarrow> string + goval" where
  "convert c v T =
     (if T = error_type then
        (case v of ErrorReply m \<Rightarrow> Inr (ErrorV (RespError m)) | _ \<Rightarrow> decodeValue c v T)
      else if Kind T = SliceK \<and> Elem T = Uint8K then
        (case decodeBytes c v of Inl m \<Rightarrow> Inl m | Inr bs \<Rightarrow> Inr (BytesV bs))
      else decodeValue c v T)"

fun Decoder_Decode :: "codec \<Rightarrow> dst \<Rightarrow> resp list \<Rightarrow> (error option \<times> goval option) \<times> resp list" where
  "Decoder_Decode c v [] = ((Some (Failure ''EOF''), None), [])"
| "Decoder_Decode c v (Fault m # rest) = ((Some (Failure m), None), Fault m # rest)"
| "Decoder_Decode c NilDst (x # rest) = ((None, None), rest)"
| "Decoder_Decode c (PtrTo T) (x # rest) =
     (case convert c x T of
        Inl m \<Rightarrow> ((Some (Failure m), None), x # rest)
      | Inr g \<Rightarrow> ((None, Some g), rest))"

text \<open>
  Modelled from the spec: \<^verbatim>\<open>objconv.StreamDecoder\<close> (an external dependency that is
  not under src/), the "decoder over an ordered sequence of Values" that "tracks the
  remaining count (derived from the array-length marker already parsed)". It reads the
  marker on first use, from \<^verbatim>\<open>Len\<close> or from \<^verbatim>\<open>Decode\<close>: a stream that is not an array
  holds one value. \<open>dec_cnt\<close> counts the values decoded, \<open>dec_max\<close> is the announced count,
  \<open>dec_err\<close> the error of the last \<^verbatim>\<open>Decode\<close>, after which every \<^verbatim>\<open>Decode\<close> returns it
  again and \<^verbatim>\<open>Len\<close> is 0. \<^verbatim>\<open>Decode\<close> returns \<open>End\<close> when the announced count has been
  decoded, and \<^verbatim>\<open>Err\<close> reports that natural end of the stream as no error. The counts
  are natural numbers (no more values are counted than the wire holds), and \<^verbatim>\<open>Len\<close>
  returns their difference as an integer. Streams of unknown length, which the wire
  protocol does not have, are left out.
\<close>

record StreamDecoder =
  Parser :: "resp list"
  dec_err :: "error option"
  dec_typ :: otype
  dec_cnt :: nat
  dec_max :: nat

definition newStreamDecoder :: "resp list \<Rightarrow> StreamDecoder" where
  "newStreamDecoder p = \<lparr>Parser = p, dec_err = None, dec_typ = Unknown, dec_cnt = 0, dec_max = 0\<rparr>"

definition StreamDecoder_init :: "StreamDecoder \<Rightarrow> error option \<times> StreamDecoder" where
  "StreamDecoder_init d =
     (case ParseType (Parser d) of
        (t, Some e) \<Rightarrow> (Some e, d\<lparr>dec_err := Some e, dec_typ := t, dec_max := 0\<rparr>)
      | (ArrayT, None) \<Rightarrow>
          (case ParseArrayBegin (Parser d) of
             ((n, e), p) \<Rightarrow> (e, d\<lparr>Parser := p, dec_err := e, dec_typ := ArrayT, dec_max := n\<rparr>))
      | (t, None) \<Rightarrow> (None, d\<lparr>dec_err := None, dec_typ := t, dec_max := 1\<rparr>))"

definition StreamDecoder_Len :: "StreamDecoder \<Rightarrow> int \<times> StreamDecoder" where
  "StreamDecoder_Len d =
     (if dec_err d \<noteq> None then (0, d)
      else if dec_typ d = Unknown then
        (case StreamDecoder_init d of
           (Some e, d') \<Rightarrow> (0, d')
         | (None, d') \<Rightarrow> (int (dec_max d') - int (dec_cnt d'), d'))
      else (int (dec_max d) - int (dec_cnt d), d))"

definition StreamDecoder_Err :: "StreamDecoder \<Rightarrow> error option" where
  "StreamDecoder_Err d = (if dec_err d = Some End then None else dec_err d)"

definition StreamDecoder_Decode ::
  "codec \<Rightarrow> dst \<Rightarrow> StreamDecoder \<Rightarrow> (error option \<times> goval option) \<times> StreamDecoder" where
  "StreamDecoder_Decode c v d =
     (case dec_err d of
        Some e \<Rightarrow> ((Some e, None), d)
      | None \<Rightarrow>
          (case (if dec_typ d = Unknown then StreamDecoder_init d else (None, d)) of
             (Some e, d1) \<Rightarrow> ((Some e, None), d1\<lparr>dec_err := Some e\<rparr>)
           | (None, d1) \<Rightarrow>
               if dec_cnt d = dec_max d1 then ((Some End, None), d1\<lparr>dec_err := Some End\<rparr>)
               else
                 (case Decoder_Decode c v (Parser d1) of
                    ((Some e, g), p) \<Rightarrow> ((Some e, None), d1\<lparr>Parser := p, dec_err := Some e\<rparr>)
                  | ((None, g), p) \<Rightarrow>
                      ((None, g), d1\<lparr>Parser := p, dec_err := None, dec_cnt := dec_cnt d + 1\<rparr>))))"

section \<open>Argument lists (args.go)\<close>

subsection \<open>argsError\<close>

record argsError =
  argsError_err :: "error option"

definition newArgsError :: "error option \<Rightarrow> argsError" where
  "newArgsError e = \<lparr>argsError_err = e\<rparr>"

definition argsError_Close :: "argsError \<Rightarrow> error option \<times> argsError" where
  "argsError_Close args = (argsError_err args, args)"

definition argsError_Len :: "argsError \<Rightarrow> int \<times> argsError" where
  "argsError_Len args = (0, args)"

definition argsError_Next :: "dst \<Rightarrow> argsError \<Rightarrow> (bool \<times> goval option) \<times> argsError" where
  "argsError_Next val args = ((False, None), args)"

subsection \<open>argsReader\<close>

text \<open>
  \<open>once\<close> is the \<^verbatim>\<open>sync.Once\<close>: true when its function has run. \<open>done_ch\<close> is the
  \<^verbatim>\<open>done chan<- error\<close>: \<open>None\<close> is the nil channel, \<open>Some sent\<close> a channel with the
  values sent on it so far, oldest first. The methods are called one at a time, and a
  send on the channel is taken to complete.
\<close>

record argsReader =
  dec :: StreamDecoder
  err :: "error option"
  once :: bool
  done_ch :: "error option list option"

definition newArgsReader :: "resp list \<Rightarrow> error option list option \<Rightarrow> argsReader" where
  "newArgsReader p ch = \<lparr>dec = newStreamDecoder p, err = None, once = False, done_ch = ch\<rparr>"

text \<open>The loop of \<^verbatim>\<open>Close\<close>: \<^verbatim>\<open>for args.dec.Decode(nil) == nil { }\<close>.\<close>

lemma StreamDecoder_init_typ:
  "StreamDecoder_init d = (None, d') \<Longrightarrow> dec_typ d' \<noteq> Unknown"
  by (cases "Parser d" rule: ParseType.cases)
     (auto simp: StreamDecoder_init_def split: prod.splits option.splits otype.splits)

lemma StreamDecoder_init_size:
  "StreamDecoder_init d = (e, d') \<Longrightarrow> size_list size (Parser d') \<le> size_list size (Parser d)"
  by (cases "Parser d" rule: ParseType.cases)
     (auto simp: StreamDecoder_init_def split: prod.splits option.splits otype.splits)

lemma Decoder_Decode_size:
  "Decoder_Decode c v p = ((None, g), p') \<Longrightarrow> size_list size p' < size_list size p"
  by (cases "(c, v, p)" rule: Decoder_Decode.cases) (auto split: sum.splits)

lemma Decode_consumes:
  assumes "StreamDecoder_Decode c v d = ((None, g), d')"
  shows "size_list size (Parser d') < size_list size (Parser d)"
proof -
  from assms have e: "dec_err d = None"
    by (auto simp: StreamDecoder_Decode_def split: option.splits)
  obtain e1 d1 where i: "(if dec_typ d = Unknown then StreamDecoder_init d else (None, d)) = (e1, d1)"
    by (cases "if dec_typ d = Unknown then StreamDecoder_init d else (None, d)") auto
  then have le: "size_list size (Parser d1) \<le> size_list size (Parser d)"
    by (auto split: if_splits dest: StreamDecoder_init_size)
  from assms e i obtain p where "Decoder_Decode c v (Parser d1) = ((None, g), p)" "Parser d' = p"
    by (auto simp: StreamDecoder_Decode_def split: option.splits prod.splits if_splits)
  with le show ?thesis
    by (auto dest: Decoder_Decode_size)
qed

function Close_discard :: "codec \<Rightarrow> StreamDecoder \<Rightarrow> StreamDecoder" where
  "Close_discard c d =
     (case StreamDecoder_Decode c NilDst d of
        ((None, g), d') \<Rightarrow> Close_discard c d'
      | ((Some e, g), d') \<Rightarrow> d')"
  by pat_completeness auto
termination
  by (relation "measure (\<lambda>(c, d). size_list size (Parser d))") (auto dest: Decode_consumes[OF sym])

declare Close_discard.simps [simp del]

definition argsReader_Close :: "codec \<Rightarrow> argsReader \<Rightarrow> error option \<times> argsReader" where
  "argsReader_Close c args =
     (if once args then (err args, args)
      else
        let d = Close_discard c (dec args);
            e = StreamDecoder_Err d;
            ch = (case done_ch args of None \<Rightarrow> None | Some sent \<Rightarrow> Some (sent @ [e]));
            e' = (if err args = None then e else err args)
        in (e', args\<lparr>dec := d, err := e', once := True, done_ch := ch\<rparr>))"

definition argsReader_Len :: "argsReader \<Rightarrow> int \<times> argsReader" where
  "argsReader_Len args =
     (if err args \<noteq> None then (0, args)
      else case StreamDecoder_Len (dec args) of (n, d) \<Rightarrow> (n, args\<lparr>dec := d\<rparr>))"

definition argsReader_Next ::
  "codec \<Rightarrow> dst \<Rightarrow> argsReader \<Rightarrow> (bool \<times> goval option) \<times> argsReader" where
  "argsReader_Next c val args =
     (if err args \<noteq> None then ((False, None), args)
      else
        case StreamDecoder_Len (dec args) of (n, d) \<Rightarrow>
          if n \<noteq> 0 \<and> fst (ParseType (Parser d)) = ErrorT then
            (case StreamDecoder_Decode c (PtrTo error_type) d of
               ((e, Some (ErrorV x)), d') \<Rightarrow> ((False, None), args\<lparr>dec := d', err := Some x\<rparr>)
             | ((e, g), d') \<Rightarrow> ((False, None), args\<lparr>dec := d'\<rparr>))
          else
            (case StreamDecoder_Decode c val d of
               ((e, g), d') \<Rightarrow> ((e = None, g), args\<lparr>dec := d'\<rparr>)))"

subsection \<open>byteArgsReader\<close>

text \<open>
  \<open>argsReader\<close> is the embedded \<^verbatim>\<open>argsReader\<close>, \<open>b_buf\<close> the slice \<^verbatim>\<open>b\<close>
  (\<open>None\<close> is nil); the backing array \<^verbatim>\<open>a [128]byte\<close> is storage only.
\<close>

record byteArgsReader =
  argsReader :: argsReader
  b_buf :: "string option"

definition newByteArgsReader :: "resp list \<Rightarrow> error option list option \<Rightarrow> byteArgsReader" where
  "newByteArgsReader p ch = \<lparr>argsReader = newArgsReader p ch, b_buf = None\<rparr>"

text \<open>The width of the integer kinds (\<^verbatim>\<open>int\<close>, \<^verbatim>\<open>uint\<close> and \<^verbatim>\<open>uintptr\<close> on a 64-bit platform).\<close>

fun bits :: "kind \<Rightarrow> nat" where
  "bits Int8K = 8"
| "bits Uint8K = 8"
| "bits Int16K = 16"
| "bits Uint16K = 16"
| "bits Int32K = 32"
| "bits Uint32K = 32"
| "bits k = 64"

text \<open>\<^verbatim>\<open>v.SetInt\<close> and \<^verbatim>\<open>v.SetUint\<close> truncate to the width of the variable.\<close>

definition parseBool :: "codec \<Rightarrow> string \<Rightarrow> error + goval" where
  "parseBool c b = (case ParseInt c b of Inl m \<Rightarrow> Inl (Failure m) | Inr i \<Rightarrow> Inr (BoolV (i \<noteq> 0)))"

definition parseInt :: "codec \<Rightarrow> gotype \<Rightarrow> string \<Rightarrow> error + goval" where
  "parseInt c T b =
     (case ParseInt c b of
        Inl m \<Rightarrow> Inl (Failure m)
      | Inr i \<Rightarrow> Inr (IntV (signed_take_bit (bits (Kind T) - 1) (sint i))))"

definition parseUint :: "codec \<Rightarrow> gotype \<Rightarrow> string \<Rightarrow> error + goval" where
  "parseUint c T b =
     (case ParseUint c b of
        Inl m \<Rightarrow> Inl (Failure m)
      | Inr u \<Rightarrow> Inr (UintV (take_bit (bits (Kind T)) (unat u))))"

definition parseFloat :: "codec \<Rightarrow> gotype \<Rightarrow> string \<Rightarrow> error + goval" where
  "parseFloat c T b =
     (case ParseFloat c b of Inl m \<Rightarrow> Inl (Failure m) | Inr f \<Rightarrow> Inr (FloatV (Kind T) f))"

definition parseString :: "string \<Rightarrow> error + goval" where
  "parseString b = Inr (StringV b)"

definition parseBytes :: "string \<Rightarrow> error + goval" where
  "parseBytes b = Inr (BytesV b)"

definition unsupported :: "gotype \<Rightarrow> error" where
  "unsupported T =
     Failure (''unsupported output type for value in argument of a redis command: '' @ TypeString T)"

definition parse :: "codec \<Rightarrow> gotype \<Rightarrow> string \<Rightarrow> error + goval" where
  "parse c T b =
     (case Kind T of
        BoolK \<Rightarrow> parseBool c b
      | IntK \<Rightarrow> parseInt c T b
      | Int8K \<Rightarrow> parseInt c T b
      | Int16K \<Rightarrow> parseInt c T b
      | Int32K \<Rightarrow> parseInt c T b
      | Int64K \<Rightarrow> parseInt c T b
      | UintK \<Rightarrow> parseUint c T b
      | Uint8K \<Rightarrow> parseUint c T b
      | Uint16K \<Rightarrow> parseUint c T b
      | Uint32K \<Rightarrow> parseUint c T b
      | Uint64K \<Rightarrow> parseUint c T b
      | UintptrK \<Rightarrow> parseUint c T b
      | Float32K \<Rightarrow> parseFloat c T b
      | Float64K \<Rightarrow> parseFloat c T b
      | StringK \<Rightarrow> parseString b
      | SliceK \<Rightarrow> if Elem T = Uint8K then parseBytes b else Inl (unsupported T)
      | _ \<Rightarrow> Inl (unsupported T))"

text \<open>
  \<^verbatim>\<open>Next\<close> first empties \<^verbatim>\<open>b\<close> (to \<^verbatim>\<open>a[:0]\<close> when nil, to \<^verbatim>\<open>b[:0]\<close> otherwise), reads the
  value into it through the embedded \<^verbatim>\<open>argsReader.Next(&args.b)\<close>, and converts it when
  the destination is not nil.
\<close>

definition byteArgsReader_Next ::
  "codec \<Rightarrow> dst \<Rightarrow> byteArgsReader \<Rightarrow> (bool \<times> goval option) \<times> byteArgsReader" where
  "byteArgsReader_Next c val args =
     (let b0 = (case b_buf args of None \<Rightarrow> [] | Some b \<Rightarrow> take 0 b) in
      case argsReader_Next c (PtrTo bytes_type) (argsReader args) of
        ((ok, g), r) \<Rightarrow>
          let b = (case g of Some (BytesV bs) \<Rightarrow> bs | _ \<Rightarrow> b0);
              args' = args\<lparr>argsReader := r, b_buf := Some b\<rparr>
          in if ok then
               (case val of
                  NilDst \<Rightarrow> ((True, None), args')
                | PtrTo T \<Rightarrow>
                    (case parse c T b of
                       Inl e \<Rightarrow> ((False, None), args'\<lparr>argsReader := r\<lparr>err := Some e\<rparr>\<rparr>)
                     | Inr x \<Rightarrow> ((True, Some x), args')))
             else ((False, None), args'))"

text \<open>\<^verbatim>\<open>Close\<close> and \<^verbatim>\<open>Len\<close> of a byteArgsReader are the embedded argsReader's.\<close>

definition byteArgsReader_Close :: "codec \<Rightarrow> byteArgsReader \<Rightarrow> error option \<times> byteArgsReader" where
  "byteArgsReader_Close c args =
     (case argsReader_Close c (argsReader args) of (e, r) \<Rightarrow> (e, args\<lparr>argsReader := r\<rparr>))"

definition byteArgsReader_Len :: "byteArgsReader \<Rightarrow> int \<times> byteArgsReader" where
  "byteArgsReader_Len args =
     (case argsReader_Len (argsReader args) of (n, r) \<Rightarrow> (n, args\<lparr>argsReader := r\<rparr>))"

subsection \<open>The interface Args\<close>

text \<open>
  A value of the interface type \<^verbatim>\<open>Args\<close> is one of its three implementations; a
  method call dispatches on it.
\<close>

datatype Args = ArgsError argsError | ArgsReader argsReader | ByteArgsReader byteArgsReader

fun Close :: "codec \<Rightarrow> Args \<Rightarrow> error option \<times> Args" where
  "Close c (ArgsError a) = map_prod id ArgsError (argsError_Close a)"
| "Close c (ArgsReader a) = map_prod id ArgsReader (argsReader_Close c a)"
| "Close c (ByteArgsReader a) = map_prod id ByteArgsReader (byteArgsReader_Close c a)"

fun Len :: "Args \<Rightarrow> int \<times> Args" where
  "Len (ArgsError a) = map_prod id ArgsError (argsError_Len a)"
| "Len (ArgsReader a) = map_prod id ArgsReader (argsReader_Len a)"
| "Len (ByteArgsReader a) = map_prod id ByteArgsReader (byteArgsReader_Len a)"

fun Next :: "codec \<Rightarrow> dst \<Rightarrow> Args \<Rightarrow> (bool \<times> goval option) \<times> Args" where
  "Next c val (ArgsError a) = map_prod id ArgsError (argsError_Next val a)"
| "Next c val (ArgsReader a) = map_prod id ArgsReader (argsReader_Next c val a)"
| "Next c val (ByteArgsReader a) = map_prod id ByteArgsReader (byteArgsReader_Next c val a)"

text \<open>
  The method table of an implementation with state \<open>'s\<close>: what a function that takes an
  \<^verbatim>\<open>Args\<close> can call.
\<close>

record 's methods =
  Close_m :: "'s \<Rightarrow> error option \<times> 's"
  Len_m :: "'s \<Rightarrow> int \<times> 's"
  Next_m :: "dst \<Rightarrow> 's \<Rightarrow> (bool \<times> goval option) \<times> 's"

definition Args_methods :: "codec \<Rightarrow> Args methods" where
  "Args_methods c = \<lparr>Close_m = Close c, Len_m = Len, Next_m = Next c\<rparr>"

subsection \<open>ParseArgs and its helpers\<close>

text \<open>
  The loop of \<^verbatim>\<open>ParseArgs\<close> over the destinations, with its \<^verbatim>\<open>break\<close>; the list
  returned holds what each call of \<^verbatim>\<open>Next\<close> stored.
\<close>

fun ParseArgs_loop :: "'s methods \<Rightarrow> 's \<Rightarrow> dst list \<Rightarrow> goval option list \<times> 's" where
  "ParseArgs_loop m args [] = ([], args)"
| "ParseArgs_loop m args (d # dsts) =
     (case Next_m m d args of
        ((ok, g), args') \<Rightarrow>
          if \<not> ok then ([g], args')
          else (case ParseArgs_loop m args' dsts of (gs, args'') \<Rightarrow> (g # gs, args'')))"

definition ParseArgs :: "'s methods \<Rightarrow> 's \<Rightarrow> dst list \<Rightarrow> (error option \<times> goval option list) \<times> 's" where
  "ParseArgs m args dsts =
     (case ParseArgs_loop m args dsts of
        (gs, args') \<Rightarrow> (case Close_m m args' of (e, args'') \<Rightarrow> ((e, gs), args'')))"

text \<open>
  The helpers \<^verbatim>\<open>Int\<close>, \<^verbatim>\<open>Int64\<close> and \<^verbatim>\<open>String\<close>. The variable of each starts as
  the zero value and keeps it unless \<^verbatim>\<open>Next\<close> stored one.
\<close>

definition Int_args :: "'s methods \<Rightarrow> 's \<Rightarrow> (int \<times> error option) \<times> 's" where
  "Int_args m args =
     (case ParseArgs m args [PtrTo int_type] of
        ((e, gs), args') \<Rightarrow> (((case gs of [Some (IntV i)] \<Rightarrow> i | _ \<Rightarrow> 0), e), args'))"

definition Int64_args :: "'s methods \<Rightarrow> 's \<Rightarrow> (int \<times> error option) \<times> 's" where
  "Int64_args m args =
     (case ParseArgs m args [PtrTo int64_type] of
        ((e, gs), args') \<Rightarrow> (((case gs of [Some (IntV i)] \<Rightarrow> i | _ \<Rightarrow> 0), e), args'))"

definition String_args :: "'s methods \<Rightarrow> 's \<Rightarrow> (string \<times> error option) \<times> 's" where
  "String_args m args =
     (case ParseArgs m args [PtrTo string_type] of
        ((e, gs), args') \<Rightarrow> (((case gs of [Some (StringV x)] \<Rightarrow> x | _ \<Rightarrow> []), e), args'))"

section \<open>Sequences of calls\<close>

datatype call = CallClose | CallLen | CallNext dst

datatype result = CloseR "error option" | LenR int | NextR bool "goval option"

fun exec :: "'s methods \<Rightarrow> call \<Rightarrow> 's \<Rightarrow> result \<times> 's" where
  "exec m CallClose s = (case Close_m m s of (e, s') \<Rightarrow> (CloseR e, s'))"
| "exec m CallLen s = (case Len_m m s of (n, s') \<Rightarrow> (LenR n, s'))"
| "exec m (CallNext d) s = (case Next_m m d s of ((ok, g), s') \<Rightarrow> (NextR ok g, s'))"

fun after :: "'s methods \<Rightarrow> call list \<Rightarrow> 's \<Rightarrow> 's" where
  "after m [] s = s"
| "after m (k # ks) s = after m ks (snd (exec m k s))"

fun results :: "'s methods \<Rightarrow> call list \<Rightarrow> 's \<Rightarrow> result list" where
  "results m [] s = []"
| "results m (k # ks) s = fst (exec m k s) # results m ks (snd (exec m k s))"

text \<open>A stream as its constructor returns it.\<close>

definition fresh :: "Args \<Rightarrow> bool" where
  "fresh a \<longleftrightarrow>
     (\<exists>e. a = ArgsError (newArgsError e)) \<or>
     (\<exists>p ch. a = ArgsReader (newArgsReader p ch)) \<or>
     (\<exists>p ch. a = ByteArgsReader (newByteArgsReader p ch))"

text \<open>
  What can be observed of a stream's state: the error it holds (\<^verbatim>\<open>args.err\<close>), the
  values sent on its done channel, its decoder, and whether \<^verbatim>\<open>Close\<close> has run (an
  argsError has nothing to close). A stream is \<open>stuck\<close> when it holds an error or its
  decoder does.
\<close>

fun stream_err :: "Args \<Rightarrow> error option" where
  "stream_err (ArgsError a) = argsError_err a"
| "stream_err (ArgsReader r) = err r"
| "stream_err (ByteArgsReader b) = err (argsReader b)"

fun decoder :: "Args \<Rightarrow> StreamDecoder option" where
  "decoder (ArgsError a) = None"
| "decoder (ArgsReader r) = Some (dec r)"
| "decoder (ByteArgsReader b) = Some (dec (argsReader b))"

fun sent :: "Args \<Rightarrow> error option list" where
  "sent (ArgsError a) = []"
| "sent (ArgsReader r) = (case done_ch r of None \<Rightarrow> [] | Some xs \<Rightarrow> xs)"
| "sent (ByteArgsReader b) = (case done_ch (argsReader b) of None \<Rightarrow> [] | Some xs \<Rightarrow> xs)"

fun has_done :: "Args \<Rightarrow> bool" where
  "has_done (ArgsError a) = False"
| "has_done (ArgsReader r) = (done_ch r \<noteq> None)"
| "has_done (ByteArgsReader b) = (done_ch (argsReader b) \<noteq> None)"

fun closed :: "Args \<Rightarrow> bool" where
  "closed (ArgsError a) = True"
| "closed (ArgsReader r) = once r"
| "closed (ByteArgsReader b) = once (argsReader b)"

definition stuck :: "Args \<Rightarrow> bool" where
  "stuck a \<longleftrightarrow>
     stream_err a \<noteq> None \<or> (case decoder a of None \<Rightarrow> True | Some d \<Rightarrow> dec_err d \<noteq> None)"

text \<open>The states that calls on a new stream can reach: a closed reader is stuck.\<close>

definition coherent :: "Args \<Rightarrow> bool" where
  "coherent a \<longleftrightarrow> (closed a \<longrightarrow> stuck a)"

text \<open>
  Over the results of a sequence of calls: \<open>reading\<close> holds when every \<^verbatim>\<open>Next\<close> returned
  true and \<^verbatim>\<open>Close\<close> was not called; \<open>reads\<close> counts the calls of \<^verbatim>\<open>Next\<close>.
\<close>

fun reading :: "result list \<Rightarrow> bool" where
  "reading [] = True"
| "reading (NextR ok g # rs) = (ok \<and> reading rs)"
| "reading (LenR n # rs) = reading rs"
| "reading (CloseR e # rs) = False"

fun reads :: "result list \<Rightarrow> nat" where
  "reads [] = 0"
| "reads (NextR ok g # rs) = Suc (reads rs)"
| "reads (r # rs) = reads rs"

text \<open>
  A codec to run the definitions on concrete inputs: bulk and simple strings decode into
  a byte slice, every value decodes into any other destination, and numbers are
  unsigned decimal digits.
\<close>

definition digit :: "char \<Rightarrow> nat option" where
  "digit c = map_of (zip ''0123456789'' [0, 1, 2, 3, 4, 5, 6, 7, 8, 9]) c"

fun decimal :: "nat \<Rightarrow> string \<Rightarrow> nat option" where
  "decimal n [] = Some n"
| "decimal n (c # cs) = (case digit c of None \<Rightarrow> None | Some k \<Rightarrow> decimal (10 * n + k) cs)"

definition parse_decimal :: "string \<Rightarrow> string + 64 word" where
  "parse_decimal s =
     (if s = [] then Inl ''invalid syntax''
      else case decimal 0 s of None \<Rightarrow> Inl ''invalid syntax'' | Some n \<Rightarrow> Inr (of_nat n))"

definition plain_codec :: codec where
  "plain_codec =
     \<lparr>decodeBytes =
        (\<lambda>v. case v of BulkString s \<Rightarrow> Inr s | SimpleString s \<Rightarrow> Inr s | _ \<Rightarrow> Inl ''type mismatch''),
      decodeValue = (\<lambda>v T. Inr (OtherV v)),
      ParseInt = parse_decimal,
      ParseUint = parse_decimal,
      ParseFloat = (\<lambda>s. Inl ''invalid syntax'')\<rparr>"

text \<open>Whether a result is that of a call of \<^verbatim>\<open>Len\<close>.\<close>

fun is_LenR :: "result \<Rightarrow> bool" where
  "is_LenR (LenR n) = True"
| "is_LenR r = False"

text \<open>
  The next value of a stream: the value next on the wire once the stream's length
  marker has been read.
\<close>

definition next_value :: "Args \<Rightarrow> resp option" where
  "next_value a =
     (case decoder (snd (Len a)) of
        None \<Rightarrow> None
      | Some d \<Rightarrow> (case Parser d of [] \<Rightarrow> None | x # rest \<Rightarrow> Some x))"

text \<open>
  The error a stream holds from a failed read: in \<^verbatim>\<open>args.err\<close>, or else in its decoder,
  from where \<^verbatim>\<open>Close\<close> moves it to \<^verbatim>\<open>args.err\<close>.
\<close>

definition holds :: "error \<Rightarrow> Args \<Rightarrow> bool" where
  "holds e a \<longleftrightarrow>
     stream_err a = Some e \<or>
     (stream_err a = None \<and> \<not> closed a \<and> e \<noteq> End \<and>
      (case decoder a of None \<Rightarrow> False | Some d \<Rightarrow> dec_err d = Some e))"

text \<open>
  A value that \<^verbatim>\<open>Next\<close> can read and drop: not a RESP error value, not a fault of the
  wire, and for a byte-backed stream one that the codec decodes into a byte slice.
\<close>

definition discardable :: "codec \<Rightarrow> Args \<Rightarrow> resp \<Rightarrow> bool" where
  "discardable c a x =
     (case x of
        ErrorReply m \<Rightarrow> False
      | Fault m \<Rightarrow> False
      | _ \<Rightarrow> (case a of ByteArgsReader b \<Rightarrow> (case decodeBytes c x of Inl m \<Rightarrow> False | Inr bs \<Rightarrow> True)
               | _ \<Rightarrow> True))"





text \<open>
  The dispatch as the spec words it, to be compared with \<open>parse\<close>: "a closed set of
  tagged destination variants {bool, signed-int, unsigned-int, float, string, bytes} with
  an explicit dispatch table or pattern match, failing explicitly for any variant outside
  the set", with "a descriptive error naming the offending type".
\<close>

datatype dst_class = Boolean | SignedInt | UnsignedInt | FloatingPoint | StringDst | ByteSlice | Outside

definition class_of :: "gotype \<Rightarrow> dst_class" where
  "class_of T =
     (if Kind T = BoolK then Boolean
      else if Kind T \<in> {IntK, Int8K, Int16K, Int32K, Int64K} then SignedInt
      else if Kind T \<in> {UintK, Uint8K, Uint16K, Uint32K, Uint64K, UintptrK} then UnsignedInt
      else if Kind T \<in> {Float32K, Float64K} then FloatingPoint
      else if Kind T = StringK then StringDst
      else if Kind T = SliceK \<and> Elem T = Uint8K then ByteSlice
      else Outside)"

definition dispatch :: "codec \<Rightarrow> gotype \<Rightarrow> string \<Rightarrow> error + goval" where
  "dispatch c T b =
     (case class_of T of
        Boolean \<Rightarrow> parseBool c b
      | SignedInt \<Rightarrow> parseInt c T b
      | UnsignedInt \<Rightarrow> parseUint c T b
      | FloatingPoint \<Rightarrow> parseFloat c T b
      | StringDst \<Rightarrow> parseString b
      | ByteSlice \<Rightarrow> parseBytes b
      | Outside \<Rightarrow>
          Inl (Failure (''unsupported output type for value in argument of a redis command: '' @ TypeString T)))"

text \<open>A struct type, which no conversion supports.\<close>

definition request_type :: gotype where
  "request_type = \<lparr>Kind = StructK, Elem = InvalidK, TypeString = ''redis.Request''\<rparr>"

text \<open>
  To tell which calls a function makes on the \<^verbatim>\<open>Args\<close> it is given: \<open>traced m\<close> is the
  implementation \<open>m\<close> that also records every call, in order. \<open>leading m s dsts\<close> is the
  number of destinations, from the first on, for which \<^verbatim>\<open>Next\<close> returns true when called in
  turn; \<open>succeeded\<close> reads a result.
\<close>

definition traced :: "'s methods \<Rightarrow> ('s \<times> call list) methods" where
  "traced m =
     \<lparr>Close_m = (\<lambda>(s, t). case Close_m m s of (e, s') \<Rightarrow> (e, (s', t @ [CallClose]))),
      Len_m = (\<lambda>(s, t). case Len_m m s of (n, s') \<Rightarrow> (n, (s', t @ [CallLen]))),
      Next_m = (\<lambda>d (s, t). case Next_m m d s of (r, s') \<Rightarrow> (r, (s', t @ [CallNext d])))\<rparr>"

fun leading :: "'s methods \<Rightarrow> 's \<Rightarrow> dst list \<Rightarrow> nat" where
  "leading m s [] = 0"
| "leading m s (d # ds) =
     (if fst (fst (Next_m m d s)) then Suc (leading m (snd (Next_m m d s)) ds) else 0)"

fun succeeded :: "result \<Rightarrow> bool" where
  "succeeded (NextR ok g) = ok"
| "succeeded (LenR n) = True"
| "succeeded (CloseR e) = (e = None)"

section \<open>Graceful shutdown of the server\<close>

text \<open>
  Modelled from the spec: \<^verbatim>\<open>Server.Shutdown\<close>, whose source file is not under src/ (only
  its test is). Section 4.4 of the spec: a connection's dispatch loop is in one of the
  states \<open>Idle\<close>, \<open>ReadingRequest\<close>, \<open>Dispatching\<close>, \<open>WritingReply\<close>, \<open>Closed\<close>;
  "Shutdown(ctx): stop accepting new connections; wait for all active connection
  dispatch loops to reach Idle/Closed naturally; if ctx is canceled before that happens,
  return the context's error immediately (without waiting further)"; the work in flight
  is not killed. Time is counted in ticks from the call: \<open>ctx t\<close> is what \<^verbatim>\<open>ctx.Err()\<close>
  returns at tick \<open>t\<close>, \<open>conns srv t\<close> the states of the dispatch loops at tick \<open>t\<close>, which
  run on their own. The context is looked at first, as the test "cancel a graceful
  shutdown" expects of a server without connections. The result is the error returned
  and the number of ticks waited; a wait that never ends is \<open>None\<close>.
\<close>

datatype conn_state = Idle | ReadingRequest | Dispatching | WritingReply | Closed

datatype ctx_error = Canceled | DeadlineExceeded

type_synonym Context = "nat \<Rightarrow> ctx_error option"

record Server =
  accepting :: bool
  conns :: "nat \<Rightarrow> conn_state list"

definition quiet :: "conn_state list \<Rightarrow> bool" where
  "quiet cs = list_all (\<lambda>s. s = Idle \<or> s = Closed) cs"

partial_function (option) Shutdown_wait :: "Context \<Rightarrow> Server \<Rightarrow> nat \<Rightarrow> (ctx_error option \<times> nat) option" where
  "Shutdown_wait ctx srv t =
     (case ctx t of
        Some e \<Rightarrow> Some (Some e, t)
      | None \<Rightarrow> if quiet (conns srv t) then Some (None, t) else Shutdown_wait ctx srv (Suc t))"

definition Shutdown :: "Context \<Rightarrow> Server \<Rightarrow> ((ctx_error option \<times> nat) \<times> Server) option" where
  "Shutdown ctx srv =
     (case Shutdown_wait ctx (srv\<lparr>accepting := False\<rparr>) 0 of
        None \<Rightarrow> None
      | Some r \<Rightarrow> Some (r, srv\<lparr>accepting := False\<rparr>))"

section \<open>Properties of the stream decoder\<close>

lemma Decode_dead: "dec_err d = Some e \<Longrightarrow> StreamDecoder_Decode c v d = ((Some e, None), d)"
  by (simp add: StreamDecoder_Decode_def)

lemma Len_dead: "dec_err d = Some e \<Longrightarrow> StreamDecoder_Len d = (0, d)"
  by (simp add: StreamDecoder_Len_def)

lemma init_err: "StreamDecoder_init d = (e, d') \<Longrightarrow> dec_err d' = e"
  by (cases "Parser d" rule: ParseType.cases)
     (auto simp: StreamDecoder_init_def split: prod.splits option.splits otype.splits)

lemma init_cnt: "StreamDecoder_init d = (e, d') \<Longrightarrow> dec_cnt d' = dec_cnt d"
  by (cases "Parser d" rule: ParseType.cases)
     (auto simp: StreamDecoder_init_def split: prod.splits option.splits otype.splits)

lemma Decode_err: "StreamDecoder_Decode c v d = ((e, g), d') \<Longrightarrow> dec_err d' = e"
  by (auto simp: StreamDecoder_Decode_def split: option.splits prod.splits if_splits dest: init_err)

lemma Decode_fail_value: "StreamDecoder_Decode c v d = ((Some e, g), d') \<Longrightarrow> g = None"
  by (auto simp: StreamDecoder_Decode_def split: option.splits prod.splits if_splits)

lemma Close_discard_dead_id: "dec_err d = Some e \<Longrightarrow> Close_discard c d = d"
  by (subst Close_discard.simps) (simp add: Decode_dead)

lemma Close_discard_dead: "dec_err (Close_discard c d) \<noteq> None"
proof (induction c d rule: Close_discard.induct)
  case (1 c d)
  obtain e g d' where D: "StreamDecoder_Decode c NilDst d = ((e, g), d')"
    by (metis prod.exhaust)
  show ?case
  proof (cases e)
    case None
    with D 1 show ?thesis by (subst Close_discard.simps) simp
  next
    case (Some x)
    with D Decode_err[OF D] show ?thesis by (subst Close_discard.simps) simp
  qed
qed

lemma Len_settle: "StreamDecoder_Len (snd (StreamDecoder_Len d)) = (fst (StreamDecoder_Len d), snd (StreamDecoder_Len d))"
  by (auto simp: StreamDecoder_Len_def split: option.splits prod.splits dest: init_err StreamDecoder_init_typ)

lemma Decode_settle: "StreamDecoder_Decode c v (snd (StreamDecoder_Len d)) = StreamDecoder_Decode c v d"
proof (cases "dec_err d = None \<and> dec_typ d = Unknown")
  case False
  then show ?thesis by (auto simp: StreamDecoder_Len_def)
next
  case True
  obtain e d1 where i: "StreamDecoder_init d = (e, d1)" by (metis prod.exhaust)
  note f = init_err[OF i] init_cnt[OF i]
  show ?thesis
  proof (cases e)
    case None
    with True i f StreamDecoder_init_typ[of d d1] show ?thesis
      by (simp add: StreamDecoder_Len_def StreamDecoder_Decode_def split: prod.splits option.splits)
  next
    case (Some x)
    with True i f show ?thesis
      by (simp add: StreamDecoder_Len_def StreamDecoder_Decode_def)
  qed
qed

lemma Close_discard_settle: "Close_discard c (snd (StreamDecoder_Len d)) = Close_discard c d"
  by (subst Close_discard.simps, subst (2) Close_discard.simps) (simp add: Decode_settle)

lemma Len_alive:
  assumes "StreamDecoder_Len d = (n, d')" "n \<noteq> 0"
  shows "dec_err d' = None" "dec_typ d' \<noteq> Unknown" "n = int (dec_max d') - int (dec_cnt d')"
  using assms
  by (auto simp: StreamDecoder_Len_def split: if_splits option.splits prod.splits
           dest: init_err StreamDecoder_init_typ)

lemma Len_zero_Decode:
  assumes "StreamDecoder_Len d = (0, d')"
  shows "fst (fst (StreamDecoder_Decode c v d')) \<noteq> None"
  using assms
  by (auto simp: StreamDecoder_Len_def StreamDecoder_Decode_def split: if_splits option.splits prod.splits
           dest: init_err StreamDecoder_init_typ)

lemma Decode_settled:
  assumes "dec_err d = None" "dec_typ d \<noteq> Unknown"
  shows "StreamDecoder_Decode c v d =
     (if dec_cnt d = dec_max d then ((Some End, None), d\<lparr>dec_err := Some End\<rparr>)
      else case Decoder_Decode c v (Parser d) of
             ((Some e, g), p) \<Rightarrow> ((Some e, None), d\<lparr>Parser := p, dec_err := Some e\<rparr>)
           | ((None, g), p) \<Rightarrow> ((None, g), d\<lparr>Parser := p, dec_err := None, dec_cnt := dec_cnt d + 1\<rparr>))"
  using assms by (simp add: StreamDecoder_Decode_def)

lemma Decode_ok_Len:
  assumes "StreamDecoder_Len d = (n, d1)" "StreamDecoder_Decode c v d1 = ((None, g), d2)"
  shows "StreamDecoder_Len d2 = (n - 1, d2)" "dec_err d2 = None" "dec_typ d2 \<noteq> Unknown"
proof -
  from assms(2) have a: "dec_err d1 = None"
    by (auto simp: StreamDecoder_Decode_def split: option.splits)
  with assms(1) have t: "dec_typ d1 \<noteq> Unknown" and n: "n = int (dec_max d1) - int (dec_cnt d1)"
    by (auto simp: StreamDecoder_Len_def split: if_splits option.splits prod.splits
             dest: init_err StreamDecoder_init_typ)
  from assms(2) a t show "StreamDecoder_Len d2 = (n - 1, d2)" "dec_err d2 = None" "dec_typ d2 \<noteq> Unknown"
    by (auto simp: Decode_settled StreamDecoder_Len_def n split: if_splits prod.splits option.splits)
qed

section \<open>Properties of argsReader\<close>

lemma ParseType_ErrorT: "fst (ParseType p) = ErrorT \<Longrightarrow> \<exists>m rest. p = ErrorReply m # rest"
  by (cases p rule: ParseType.cases) auto

lemma Decode_error_value:
  assumes "StreamDecoder_Len d0 = (n, d)" "n \<noteq> 0" "fst (ParseType (Parser d)) = ErrorT"
  shows "\<exists>m rest. Parser d = ErrorReply m # rest \<and>
           StreamDecoder_Decode c (PtrTo error_type) d =
             ((None, Some (ErrorV (RespError m))), d\<lparr>Parser := rest, dec_err := None, dec_cnt := dec_cnt d + 1\<rparr>)"
proof -
  from ParseType_ErrorT[OF assms(3)] obtain m rest where p: "Parser d = ErrorReply m # rest" by blast
  from Len_alive[OF assms(1,2)] have a: "dec_err d = None" "dec_typ d \<noteq> Unknown" "dec_cnt d \<noteq> dec_max d"
    using assms(2) by auto
  with p show ?thesis by (simp add: Decode_settled convert_def)
qed

lemma rNext_stuck:
  "err r \<noteq> None \<or> dec_err (dec r) \<noteq> None \<Longrightarrow> argsReader_Next c v r = ((False, None), r)"
  by (auto simp: argsReader_Next_def Len_dead Decode_dead)

lemma rLen_stuck:
  "err r \<noteq> None \<or> dec_err (dec r) \<noteq> None \<Longrightarrow> argsReader_Len r = (0, r)"
  by (auto simp: argsReader_Len_def Len_dead)

lemma rNext_frame:
  "argsReader_Next c v r = (x, r') \<Longrightarrow> once r' = once r \<and> done_ch r' = done_ch r"
  by (auto simp: argsReader_Next_def split: if_splits prod.splits option.splits goval.splits)

lemma rNext_fail:
  assumes "argsReader_Next c v r = ((False, g), r')"
  shows "err r' \<noteq> None \<or> dec_err (dec r') \<noteq> None"
proof (cases "err r = None")
  case False
  with assms show ?thesis by (auto simp: argsReader_Next_def)
next
  case True
  obtain n d where L: "StreamDecoder_Len (dec r) = (n, d)" by (metis prod.exhaust)
  show ?thesis
  proof (cases "n \<noteq> 0 \<and> fst (ParseType (Parser d)) = ErrorT")
    case True
    with Decode_error_value[OF L, of c] obtain m d' where
      "StreamDecoder_Decode c (PtrTo error_type) d = ((None, Some (ErrorV (RespError m))), d')" by auto
    with assms \<open>err r = None\<close> L True show ?thesis by (auto simp: argsReader_Next_def)
  next
    case False
    obtain e g' d' where D: "StreamDecoder_Decode c v d = ((e, g'), d')" by (metis prod.exhaust)
    with assms \<open>err r = None\<close> L False have "e \<noteq> None" "r' = r\<lparr>dec := d'\<rparr>"
      by (auto simp: argsReader_Next_def split: if_splits)
    with Decode_err[OF D] show ?thesis by auto
  qed
qed

lemma rNext_ok:
  assumes "argsReader_Next c v r = ((True, g), r')"
  shows "err r = None" "err r' = None" "dec_err (dec r') = None"
        "argsReader_Len r' = (fst (argsReader_Len r) - 1, r')"
proof -
  from assms show e: "err r = None" by (auto simp: argsReader_Next_def split: if_splits)
  obtain n d where L: "StreamDecoder_Len (dec r) = (n, d)" by (metis prod.exhaust)
  from assms e L obtain d' where D: "StreamDecoder_Decode c v d = ((None, g), d')" and r': "r' = r\<lparr>dec := d'\<rparr>"
    by (auto simp: argsReader_Next_def split: if_splits prod.splits option.splits goval.splits)
  from r' e show "err r' = None" by simp
  from Decode_ok_Len[OF L D] r' e L
  show "dec_err (dec r') = None" "argsReader_Len r' = (fst (argsReader_Len r) - 1, r')"
    by (auto simp: argsReader_Len_def)
qed

lemma rLen_frame:
  "argsReader_Len r = (n, r') \<Longrightarrow> once r' = once r \<and> done_ch r' = done_ch r \<and> err r' = err r"
  by (auto simp: argsReader_Len_def split: if_splits prod.splits)

lemma rClose_once: "once r \<Longrightarrow> argsReader_Close c r = (err r, r)"
  by (simp add: argsReader_Close_def)

lemma rClose_result:
  "argsReader_Close c r = (e, r') \<Longrightarrow> once r' \<and> err r' = e \<and> (\<not> once r \<longrightarrow> dec_err (dec r') \<noteq> None)"
  using Close_discard_dead[of c "dec r"]
  by (auto simp: argsReader_Close_def Let_def split: if_splits)

section \<open>Properties of byteArgsReader\<close>

lemma bNext_cases:
  assumes "argsReader_Next c (PtrTo bytes_type) (argsReader b) = ((ok, g), r)"
  shows "byteArgsReader_Next c v b =
     (let buf = (case g of Some (BytesV bs) \<Rightarrow> bs | _ \<Rightarrow> []);
          b' = b\<lparr>argsReader := r, b_buf := Some buf\<rparr>
      in if ok then
           (case v of NilDst \<Rightarrow> ((True, None), b')
            | PtrTo T \<Rightarrow> (case parse c T buf of
                 Inl e \<Rightarrow> ((False, None), b'\<lparr>argsReader := r\<lparr>err := Some e\<rparr>\<rparr>)
               | Inr x \<Rightarrow> ((True, Some x), b')))
         else ((False, None), b'))"
  using assms by (cases "b_buf b") (simp_all add: byteArgsReader_Next_def)

lemma bNext_stuck:
  assumes "err (argsReader b) \<noteq> None \<or> dec_err (dec (argsReader b)) \<noteq> None"
  shows "byteArgsReader_Next c v b = ((False, None), b\<lparr>b_buf := Some []\<rparr>)"
  using bNext_cases[OF rNext_stuck[OF assms], of c v] by simp

lemma bNext_frame:
  assumes "byteArgsReader_Next c v b = (x, b')"
  shows "once (argsReader b') = once (argsReader b) \<and> done_ch (argsReader b') = done_ch (argsReader b)"
proof -
  obtain ok g r where i: "argsReader_Next c (PtrTo bytes_type) (argsReader b) = ((ok, g), r)"
    by (metis prod.exhaust)
  from rNext_frame[OF i] have f: "once r = once (argsReader b)" "done_ch r = done_ch (argsReader b)" by auto
  from assms bNext_cases[OF i, of v] f show ?thesis
    by (auto simp: Let_def split: if_splits dst.splits sum.splits)
qed

lemma bNext_fail:
  assumes "byteArgsReader_Next c v b = ((False, g), b')"
  shows "err (argsReader b') \<noteq> None \<or> dec_err (dec (argsReader b')) \<noteq> None"
proof -
  obtain ok g' r where i: "argsReader_Next c (PtrTo bytes_type) (argsReader b) = ((ok, g'), r)"
    by (metis prod.exhaust)
  show ?thesis
  proof (cases ok)
    case True
    with assms bNext_cases[OF i, of v] show ?thesis
      by (auto simp: Let_def split: dst.splits sum.splits)
  next
    case False
    with i rNext_fail[of c "PtrTo bytes_type" "argsReader b" g' r]
    have "err r \<noteq> None \<or> dec_err (dec r) \<noteq> None" by simp
    with False assms bNext_cases[OF i, of v] show ?thesis
      by (auto simp: Let_def)
  qed
qed

lemma bNext_ok:
  assumes "byteArgsReader_Next c v b = ((True, g), b')"
  shows "err (argsReader b) = None" "err (argsReader b') = None" "dec_err (dec (argsReader b')) = None"
        "argsReader_Len (argsReader b') = (fst (argsReader_Len (argsReader b)) - 1, argsReader b')"
proof -
  obtain ok g' r where i: "argsReader_Next c (PtrTo bytes_type) (argsReader b) = ((ok, g'), r)"
    by (metis prod.exhaust)
  from assms bNext_cases[OF i, of v] have ok: "ok" and r: "argsReader b' = r"
    by (auto simp: Let_def split: if_splits dst.splits sum.splits)
  from i ok have i': "argsReader_Next c (PtrTo bytes_type) (argsReader b) = ((True, g'), r)" by simp
  from rNext_ok[OF i'] r
  show "err (argsReader b) = None" "err (argsReader b') = None" "dec_err (dec (argsReader b')) = None"
        "argsReader_Len (argsReader b') = (fst (argsReader_Len (argsReader b)) - 1, argsReader b')"
    by auto
qed

section \<open>Properties of the interface\<close>

lemma stuck_simps:
  "stuck (ArgsError e) = True"
  "stuck (ArgsReader r) = (err r \<noteq> None \<or> dec_err (dec r) \<noteq> None)"
  "stuck (ByteArgsReader b) = (err (argsReader b) \<noteq> None \<or> dec_err (dec (argsReader b)) \<noteq> None)"
  by (auto simp: stuck_def)

lemma Next_stuck:
  assumes "stuck a"
  shows "fst (Next c v a) = (False, None) \<and> stream_err (snd (Next c v a)) = stream_err a \<and>
         decoder (snd (Next c v a)) = decoder a \<and> stuck (snd (Next c v a))"
proof (cases a)
  case (ArgsError e)
  then show ?thesis by (simp add: argsError_Next_def stuck_simps)
next
  case (ArgsReader r)
  with assms have "argsReader_Next c v r = ((False, None), r)"
    by (intro rNext_stuck) (simp add: stuck_simps)
  with ArgsReader assms show ?thesis by (simp add: stuck_simps)
next
  case (ByteArgsReader b)
  with assms have "byteArgsReader_Next c v b = ((False, None), b\<lparr>b_buf := Some []\<rparr>)"
    by (intro bNext_stuck) (simp add: stuck_simps)
  with ByteArgsReader assms show ?thesis by (simp add: stuck_simps)
qed

lemma Next_frame:
  "closed (snd (Next c v a)) = closed a \<and> sent (snd (Next c v a)) = sent a \<and>
   has_done (snd (Next c v a)) = has_done a"
proof (cases a)
  case (ArgsError e)
  then show ?thesis by (simp add: argsError_Next_def)
next
  case (ArgsReader r)
  obtain x r' where n: "argsReader_Next c v r = (x, r')" by (metis prod.exhaust)
  from rNext_frame[OF n] n ArgsReader show ?thesis by simp
next
  case (ByteArgsReader b)
  obtain x b' where n: "byteArgsReader_Next c v b = (x, b')" by (metis prod.exhaust)
  from bNext_frame[OF n] n ByteArgsReader show ?thesis by simp
qed

lemma Next_fail:
  assumes "\<not> fst (fst (Next c v a))"
  shows "stuck (snd (Next c v a))"
proof (cases a)
  case (ArgsError e)
  then show ?thesis by (simp add: argsError_Next_def stuck_simps)
next
  case (ArgsReader r)
  obtain ok g r' where n: "argsReader_Next c v r = ((ok, g), r')" by (metis prod.exhaust)
  with assms ArgsReader have "\<not> ok" by simp
  with n rNext_fail[of c v r g r'] ArgsReader show ?thesis by (simp add: stuck_simps)
next
  case (ByteArgsReader b)
  obtain ok g b' where n: "byteArgsReader_Next c v b = ((ok, g), b')" by (metis prod.exhaust)
  with assms ByteArgsReader have "\<not> ok" by simp
  with n bNext_fail[of c v b g b'] ByteArgsReader show ?thesis by (simp add: stuck_simps)
qed

lemma Next_ok:
  assumes "fst (fst (Next c v a))"
  shows "stream_err a = None \<and> stream_err (snd (Next c v a)) = None \<and> \<not> stuck (snd (Next c v a)) \<and>
         fst (Len (snd (Next c v a))) = fst (Len a) - 1"
proof (cases a)
  case (ArgsError e)
  with assms show ?thesis by (simp add: argsError_Next_def)
next
  case (ArgsReader r)
  obtain ok g r' where n: "argsReader_Next c v r = ((ok, g), r')" by (metis prod.exhaust)
  with assms ArgsReader have n': "argsReader_Next c v r = ((True, g), r')" by simp
  from rNext_ok[OF n'] n' ArgsReader show ?thesis by (simp add: stuck_simps)
next
  case (ByteArgsReader b)
  obtain ok g b' where n: "byteArgsReader_Next c v b = ((ok, g), b')" by (metis prod.exhaust)
  with assms ByteArgsReader have n': "byteArgsReader_Next c v b = ((True, g), b')" by simp
  from bNext_ok[OF n'] n' ByteArgsReader show ?thesis by (simp add: stuck_simps byteArgsReader_Len_def split: prod.splits)
qed

lemma Len_frame:
  "closed (snd (Len a)) = closed a \<and> sent (snd (Len a)) = sent a \<and>
   has_done (snd (Len a)) = has_done a \<and> stream_err (snd (Len a)) = stream_err a"
proof (cases a)
  case (ArgsError e)
  then show ?thesis by (simp add: argsError_Len_def)
next
  case (ArgsReader r)
  obtain n r' where l: "argsReader_Len r = (n, r')" by (metis prod.exhaust)
  from rLen_frame[OF l] l ArgsReader show ?thesis by simp
next
  case (ByteArgsReader b)
  obtain n r' where l: "argsReader_Len (argsReader b) = (n, r')" by (metis prod.exhaust)
  from rLen_frame[OF l] l ByteArgsReader show ?thesis by (simp add: byteArgsReader_Len_def split: prod.splits)
qed

lemma Len_stuck: "stuck a \<Longrightarrow> Len a = (0, a)"
  by (cases a) (auto simp: stuck_simps argsError_Len_def rLen_stuck byteArgsReader_Len_def)

lemma Close_closed: "closed a \<Longrightarrow> Close c a = (stream_err a, a)"
  by (cases a) (auto simp: argsError_Close_def rClose_once byteArgsReader_Close_def)

lemma Close_result:
  "closed (snd (Close c a)) \<and> stream_err (snd (Close c a)) = fst (Close c a) \<and>
   has_done (snd (Close c a)) = has_done a"
  by (cases a)
     (auto simp: argsError_Close_def argsReader_Close_def byteArgsReader_Close_def Let_def
           split: option.splits)

lemma Close_first:
  assumes "\<not> closed a"
  shows "\<exists>d. decoder a = Some d \<and>
           decoder (snd (Close c a)) = Some (Close_discard c d) \<and>
           sent (snd (Close c a)) =
             (if has_done a then sent a @ [StreamDecoder_Err (Close_discard c d)] else []) \<and>
           fst (Close c a) =
             (if stream_err a = None then StreamDecoder_Err (Close_discard c d) else stream_err a)"
  using assms
  by (cases a)
     (auto simp: argsReader_Close_def byteArgsReader_Close_def Let_def split: option.splits)

lemma Close_first_stuck: "\<not> closed a \<Longrightarrow> stuck (snd (Close c a))"
  using Close_first[of a c] Close_discard_dead[of c]
  by (auto simp: stuck_def)

lemma Close_stuck: "stuck a \<Longrightarrow> stuck (snd (Close c a))"
  by (cases "closed a") (simp_all add: Close_closed Close_first_stuck)

lemma Close_err_sticky: "stream_err a = Some e \<Longrightarrow> fst (Close c a) = Some e"
  using Close_first[of a c] by (cases "closed a") (auto simp: Close_closed)

lemma exec_Args:
  "exec (Args_methods c) CallClose a = (CloseR (fst (Close c a)), snd (Close c a))"
  "exec (Args_methods c) CallLen a = (LenR (fst (Len a)), snd (Len a))"
  "exec (Args_methods c) (CallNext v) a = (NextR (fst (fst (Next c v a))) (snd (fst (Next c v a))), snd (Next c v a))"
  by (simp_all add: Args_methods_def split: prod.splits)

declare exec.simps [simp del]

lemma stuck_exec: "stuck a \<Longrightarrow> stuck (snd (exec (Args_methods c) k a))"
  by (cases k) (simp_all add: exec_Args Close_stuck Len_stuck Next_stuck)

lemma stuck_after: "stuck a \<Longrightarrow> stuck (after (Args_methods c) ks a)"
  by (induction ks arbitrary: a) (simp_all add: stuck_exec)


lemma coherent_exec: "coherent a \<Longrightarrow> coherent (snd (exec (Args_methods c) k a))"
proof (cases k)
  case CallClose
  assume "coherent a"
  then show ?thesis using CallClose
    by (cases "closed a") (auto simp: coherent_def exec_Args Close_closed Close_first_stuck)
next
  case CallLen
  assume "coherent a"
  then show ?thesis using CallLen Len_frame[of a]
    by (cases "stuck a") (auto simp: coherent_def exec_Args Len_stuck)
next
  case (CallNext v)
  assume "coherent a"
  then show ?thesis using CallNext Next_frame[of c v a] Next_stuck[of a c v]
    by (cases "stuck a") (auto simp: coherent_def exec_Args)
qed

lemma coherent_after: "coherent a \<Longrightarrow> coherent (after (Args_methods c) ks a)"
  by (induction ks arbitrary: a) (simp_all add: coherent_exec)

lemma fresh_coherent: "fresh a \<Longrightarrow> coherent a"
  by (auto simp: fresh_def coherent_def stuck_def newArgsReader_def newByteArgsReader_def)



lemma closed_exec_iff: "closed (snd (exec (Args_methods c) k a)) = (closed a \<or> k = CallClose)"
  by (cases k) (simp_all add: exec_Args Close_result Len_frame Next_frame)




lemma rLen_idem: "fst (argsReader_Len (snd (argsReader_Len r))) = fst (argsReader_Len r)"
  by (cases "StreamDecoder_Len (dec r)") (use Len_settle[of "dec r"] in \<open>auto simp: argsReader_Len_def\<close>)

lemma Len_idem: "fst (Len (snd (Len a))) = fst (Len a)"
proof (cases a)
  case (ArgsError e)
  then show ?thesis by (simp add: argsError_Len_def)
next
  case (ArgsReader r)
  then show ?thesis using rLen_idem[of r] by simp
next
  case (ByteArgsReader b)
  then show ?thesis using rLen_idem[of "argsReader b"]
    by (simp add: byteArgsReader_Len_def case_prod_beta)
qed

lemma Len_after:
  assumes "coherent a"
  shows "fst (Len (after (Args_methods c) ks a)) =
     (if reading (results (Args_methods c) ks a)
      then fst (Len a) - int (reads (results (Args_methods c) ks a)) else 0)"
  using assms
proof (induction ks arbitrary: a)
  case Nil
  then show ?case by simp
next
  case (Cons k ks)
  let ?a' = "snd (exec (Args_methods c) k a)"
  have co: "coherent ?a'" using Cons.prems by (rule coherent_exec)
  note IH = Cons.IH[OF co]
  show ?case
  proof (cases k)
    case CallClose
    have "closed ?a'" by (simp add: closed_exec_iff CallClose)
    with co have "stuck ?a'" by (simp add: coherent_def)
    then have "stuck (after (Args_methods c) ks ?a')" by (rule stuck_after)
    then show ?thesis using CallClose by (simp add: Len_stuck exec_Args)
  next
    case CallLen
    then show ?thesis using IH by (simp add: exec_Args Len_idem)
  next
    case (CallNext v)
    show ?thesis
    proof (cases "fst (fst (Next c v a))")
      case True
      with Next_ok[OF True] IH CallNext show ?thesis by (simp add: exec_Args)
    next
      case False
      then have "stuck ?a'" using CallNext by (simp add: exec_Args Next_fail)
      then have "stuck (after (Args_methods c) ks ?a')" by (rule stuck_after)
      then show ?thesis using CallNext False by (simp add: Len_stuck exec_Args)
    qed
  qed
qed

lemma Len_new:
  "StreamDecoder_Len (newStreamDecoder p) =
     (case ParseType p of
        (t, Some e) \<Rightarrow> (0, snd (StreamDecoder_init (newStreamDecoder p)))
      | (ArrayT, None) \<Rightarrow> (int (fst (fst (ParseArrayBegin p))), snd (StreamDecoder_init (newStreamDecoder p)))
      | (t, None) \<Rightarrow> (1, snd (StreamDecoder_init (newStreamDecoder p))))"
  by (cases p rule: ParseType.cases)
     (simp_all add: StreamDecoder_Len_def StreamDecoder_init_def newStreamDecoder_def)

lemma Len_new_nonneg: "0 \<le> fst (StreamDecoder_Len (newStreamDecoder p))"
  by (cases p rule: ParseType.cases)
     (simp_all add: StreamDecoder_Len_def StreamDecoder_init_def newStreamDecoder_def)

lemma Len_fresh_nonneg: "fresh a \<Longrightarrow> 0 \<le> fst (Len a)"
  using Len_new_nonneg
  by (auto simp: fresh_def argsError_Len_def argsReader_Len_def byteArgsReader_Len_def newArgsError_def
        newArgsReader_def newByteArgsReader_def case_prod_beta)

lemma Len_after_le:
  assumes "fresh a"
  shows "fst (Len (after (Args_methods c) ks a)) \<le> fst (Len a)"
  using Len_after[OF fresh_coherent[OF assms], of c ks] Len_fresh_nonneg[OF assms] by auto

lemma Len_array:
  "fst (Len (ArgsReader (newArgsReader (Array xs # rest) ch))) = int (length xs)"
  "fst (Len (ByteArgsReader (newByteArgsReader (Array xs # rest) ch))) = int (length xs)"
  by (simp_all add: argsReader_Len_def byteArgsReader_Len_def newArgsReader_def newByteArgsReader_def
        newStreamDecoder_def StreamDecoder_Len_def StreamDecoder_init_def)

lemma rLen_Len: "argsReader_Len (snd (argsReader_Len r)) = (fst (argsReader_Len r), snd (argsReader_Len r))"
  using Len_settle[of "dec r"] by (auto simp: argsReader_Len_def case_prod_beta)

lemma rNext_Len: "argsReader_Next c v (snd (argsReader_Len r)) = argsReader_Next c v r"
  using Len_settle[of "dec r"] by (auto simp: argsReader_Len_def argsReader_Next_def case_prod_beta)

lemma rClose_Len:
  "fst (argsReader_Close c (snd (argsReader_Len r))) = fst (argsReader_Close c r) \<and>
   snd (argsReader_Close c (snd (argsReader_Len r))) = snd (argsReader_Len (snd (argsReader_Close c r)))"
proof (cases "once r")
  case True
  then have "once (snd (argsReader_Len r))" "err (snd (argsReader_Len r)) = err r"
    using rLen_frame[of r] by (auto simp: prod_eq_iff)
  with True show ?thesis by (simp add: rClose_once)
next
  case False
  obtain e r1 where c: "argsReader_Close c r = (e, r1)" by (metis prod.exhaust)
  from rClose_result[OF c] False have "dec_err (dec r1) \<noteq> None" by simp
  then have s: "argsReader_Len r1 = (0, r1)" by (simp add: rLen_stuck)
  have "argsReader_Close c (snd (argsReader_Len r)) = argsReader_Close c r"
    using False by (auto simp: argsReader_Close_def argsReader_Len_def case_prod_beta Close_discard_settle)
  with c s show ?thesis by simp
qed

lemma Len_Len: "Len (snd (Len a)) = (fst (Len a), snd (Len a))"
  using rLen_Len
  by (cases a) (auto simp: argsError_Len_def byteArgsReader_Len_def case_prod_beta prod_eq_iff)

lemma Next_Len: "Next c v (snd (Len a)) = Next c v a"
  using rNext_Len
  by (cases a) (auto simp: argsError_Len_def byteArgsReader_Len_def byteArgsReader_Next_def case_prod_beta prod_eq_iff)

lemma Close_Len:
  "fst (Close c (snd (Len a))) = fst (Close c a) \<and> snd (Close c (snd (Len a))) = snd (Len (snd (Close c a)))"
  using rClose_Len
  by (cases a) (auto simp: argsError_Len_def argsError_Close_def byteArgsReader_Len_def
        byteArgsReader_Close_def case_prod_beta prod_eq_iff)

lemma results_without_Len:
  assumes "snd (Len a) = snd (Len b)"
  shows "[r \<leftarrow> results (Args_methods c) ks a. \<not> is_LenR r] =
         results (Args_methods c) [k \<leftarrow> ks. k \<noteq> CallLen] b"
  using assms
proof (induction ks arbitrary: a b)
  case Nil
  then show ?case by simp
next
  case (Cons k ks)
  show ?case
  proof (cases k)
    case CallClose
    have "fst (Close c a) = fst (Close c b)"
      using Close_Len[of c a] Close_Len[of c b] Cons.prems by simp
    moreover have "snd (Len (snd (Close c a))) = snd (Len (snd (Close c b)))"
      using Close_Len[of c a] Close_Len[of c b] Cons.prems by simp
    ultimately show ?thesis using CallClose Cons.IH by (simp add: exec_Args)
  next
    case CallLen
    have "snd (Len (snd (Len a))) = snd (Len b)" using Cons.prems by (simp add: Len_Len)
    then show ?thesis using CallLen Cons.IH by (simp add: exec_Args)
  next
    case (CallNext v)
    have "Next c v a = Next c v b"
      using Next_Len[of c v a] Next_Len[of c v b] Cons.prems by simp
    then show ?thesis using CallNext Cons.IH[of "snd (Next c v b)" "snd (Next c v b)"] by (simp add: exec_Args)
  qed
qed

lemma rNext_error_value:
  assumes "0 < fst (argsReader_Len r)"
    and "Parser (dec (snd (argsReader_Len r))) = ErrorReply msg # rest"
  shows "fst (argsReader_Next c v r) = (False, None) \<and> err (snd (argsReader_Next c v r)) = Some (RespError msg)"
proof -
  from assms(1) have e: "err r = None" by (auto simp: argsReader_Len_def split: if_splits)
  obtain n d where L: "StreamDecoder_Len (dec r) = (n, d)" by (metis prod.exhaust)
  with assms e have n: "n \<noteq> 0" and p: "Parser d = ErrorReply msg # rest"
    by (auto simp: argsReader_Len_def)
  then have t: "fst (ParseType (Parser d)) = ErrorT" by simp
  from Decode_error_value[OF L n t, of c] p obtain d' where
    "StreamDecoder_Decode c (PtrTo error_type) d = ((None, Some (ErrorV (RespError msg))), d')" by auto
  with e L n t show ?thesis by (simp add: argsReader_Next_def)
qed

lemma Next_error_value:
  assumes "0 < fst (Len a)" and "next_value a = Some (ErrorReply msg)"
  shows "fst (Next c v a) = (False, None) \<and> stream_err (snd (Next c v a)) = Some (RespError msg)"
proof (cases a)
  case (ArgsError e)
  with assms show ?thesis by (simp add: argsError_Len_def)
next
  case (ArgsReader r)
  with assms obtain rest where "0 < fst (argsReader_Len r)"
      "Parser (dec (snd (argsReader_Len r))) = ErrorReply msg # rest"
    by (auto simp: next_value_def split: list.splits)
  from rNext_error_value[OF this, of c v] ArgsReader show ?thesis by simp
next
  case (ByteArgsReader b)
  with assms obtain rest where "0 < fst (argsReader_Len (argsReader b))"
      "Parser (dec (snd (argsReader_Len (argsReader b)))) = ErrorReply msg # rest"
    by (auto simp: next_value_def byteArgsReader_Len_def case_prod_beta split: list.splits)
  from rNext_error_value[OF this, of c "PtrTo bytes_type"]
  obtain r where i: "argsReader_Next c (PtrTo bytes_type) (argsReader b) = ((False, None), r)"
      and r: "err r = Some (RespError msg)"
    by (cases "argsReader_Next c (PtrTo bytes_type) (argsReader b)") auto
  from bNext_cases[OF i, of v] r ByteArgsReader show ?thesis by simp
qed

lemma err_exec: "stream_err a = Some e \<Longrightarrow> stream_err (snd (exec (Args_methods c) k a)) = Some e"
proof (cases k)
  case CallClose
  assume "stream_err a = Some e"
  then show ?thesis using CallClose Close_result[of c a] by (simp add: exec_Args Close_err_sticky)
next
  case CallLen
  assume "stream_err a = Some e"
  then show ?thesis using CallLen by (simp add: exec_Args Len_frame)
next
  case (CallNext v)
  assume "stream_err a = Some e"
  then show ?thesis using CallNext Next_stuck[of a c v] by (simp add: exec_Args stuck_def)
qed

lemma err_after: "stream_err a = Some e \<Longrightarrow> stream_err (after (Args_methods c) ks a) = Some e"
  by (induction ks arbitrary: a) (simp_all add: err_exec)

lemma Decoder_Decode_fail: "Decoder_Decode c v p = ((Some e, g), p') \<Longrightarrow> \<exists>m. e = Failure m"
  by (cases "(c, v, p)" rule: Decoder_Decode.cases) (auto split: sum.splits)

lemma rNext_fail_held:
  assumes "0 < fst (argsReader_Len r)" and "argsReader_Next c v r = ((False, g), r')"
  shows "err r' \<noteq> None \<or> (\<exists>m. dec_err (dec r') = Some (Failure m))"
proof -
  from assms(1) have e: "err r = None" by (auto simp: argsReader_Len_def split: if_splits)
  obtain n d where L: "StreamDecoder_Len (dec r) = (n, d)" by (metis prod.exhaust)
  with assms(1) e have n: "n \<noteq> 0" by (auto simp: argsReader_Len_def)
  note al = Len_alive[OF L n]
  show ?thesis
  proof (cases "fst (ParseType (Parser d)) = ErrorT")
    case True
    with Decode_error_value[OF L n, of c] obtain m d' where
      "StreamDecoder_Decode c (PtrTo error_type) d = ((None, Some (ErrorV (RespError m))), d')" by auto
    with assms(2) e L n True show ?thesis by (auto simp: argsReader_Next_def)
  next
    case False
    obtain e1 g1 p where D: "Decoder_Decode c v (Parser d) = ((e1, g1), p)" by (metis prod.exhaust)
    from al n have ne: "dec_cnt d \<noteq> dec_max d" by auto
    from assms(2) e L n False D al(1,2) ne obtain x where x: "e1 = Some x" "dec_err (dec r') = Some x"
      by (cases e1) (auto simp: argsReader_Next_def Decode_settled)
    with Decoder_Decode_fail[of c v "Parser d" x g1 p] D show ?thesis by auto
  qed
qed

lemma parse_fail: "parse c T b = Inl e \<Longrightarrow> \<exists>m. e = Failure m"
  by (cases "Kind T")
     (auto simp: parse_def parseBool_def parseInt_def parseUint_def parseFloat_def parseString_def
        parseBytes_def unsupported_def split: sum.splits if_splits)

lemma bNext_fail_held:
  assumes "0 < fst (argsReader_Len (argsReader b))" and "byteArgsReader_Next c v b = ((False, g), b')"
  shows "err (argsReader b') \<noteq> None \<or> (\<exists>m. dec_err (dec (argsReader b')) = Some (Failure m))"
proof -
  obtain ok g' r where i: "argsReader_Next c (PtrTo bytes_type) (argsReader b) = ((ok, g'), r)"
    by (metis prod.exhaust)
  show ?thesis
  proof (cases ok)
    case True
    with assms(2) bNext_cases[OF i, of v] show ?thesis
      by (auto simp: Let_def split: dst.splits sum.splits)
  next
    case False
    with i rNext_fail_held[OF assms(1), of c "PtrTo bytes_type" g' r]
    have "err r \<noteq> None \<or> (\<exists>m. dec_err (dec r) = Some (Failure m))" by simp
    with False assms(2) bNext_cases[OF i, of v] show ?thesis
      by (auto simp: Let_def)
  qed
qed

lemma Next_fail_holds:
  assumes "0 < fst (Len a)" and "\<not> closed a" and "\<not> fst (fst (Next c v a))"
  shows "\<exists>e. holds e (snd (Next c v a))"
proof (cases a)
  case (ArgsError x)
  with assms show ?thesis by simp
next
  case (ArgsReader r)
  obtain ok g r' where n: "argsReader_Next c v r = ((ok, g), r')" by (metis prod.exhaust)
  with assms ArgsReader have n': "argsReader_Next c v r = ((False, g), r')" and l: "0 < fst (argsReader_Len r)"
    by auto
  from rNext_frame[OF n] assms(2) ArgsReader have "\<not> once r'" by simp
  with rNext_fail_held[OF l n'] n ArgsReader show ?thesis
    by (cases "err r'") (auto simp: holds_def)
next
  case (ByteArgsReader b)
  obtain ok g b' where n: "byteArgsReader_Next c v b = ((ok, g), b')" by (metis prod.exhaust)
  with assms ByteArgsReader have n': "byteArgsReader_Next c v b = ((False, g), b')"
      and l: "0 < fst (argsReader_Len (argsReader b))"
    by (auto simp: byteArgsReader_Len_def case_prod_beta)
  from bNext_frame[OF n] assms(2) ByteArgsReader have "\<not> once (argsReader b')" by simp
  with bNext_fail_held[OF l n'] n ByteArgsReader show ?thesis
    by (cases "err (argsReader b')") (auto simp: holds_def)
qed

lemma holds_stuck: "holds e a \<Longrightarrow> stuck a"
  by (auto simp: holds_def stuck_def split: option.splits)

lemma holds_Close: "holds e a \<Longrightarrow> fst (Close c a) = Some e"
proof -
  assume h: "holds e a"
  show ?thesis
  proof (cases "stream_err a")
    case (Some x)
    with h show ?thesis by (simp add: holds_def Close_err_sticky)
  next
    case None
    with h obtain d where d: "\<not> closed a" "e \<noteq> End" "decoder a = Some d" "dec_err d = Some e"
      by (auto simp: holds_def split: option.splits)
    from Close_first[OF d(1), of c] d None show ?thesis
      by (auto simp: Close_discard_dead_id StreamDecoder_Err_def)
  qed
qed

lemma holds_exec: "holds e a \<Longrightarrow> holds e (snd (exec (Args_methods c) k a))"
proof (cases k)
  case CallClose
  assume "holds e a"
  from holds_Close[OF this, of c] Close_result[of c a] CallClose show ?thesis
    by (simp add: exec_Args holds_def)
next
  case CallLen
  assume "holds e a"
  then show ?thesis using CallLen by (simp add: exec_Args Len_stuck holds_stuck)
next
  case (CallNext v)
  assume h: "holds e a"
  from Next_stuck[OF holds_stuck[OF h], of c v] Next_frame[of c v a] h CallNext show ?thesis
    by (simp add: exec_Args holds_def)
qed

lemma holds_after: "holds e a \<Longrightarrow> holds e (after (Args_methods c) ks a)"
  by (induction ks arbitrary: a) (simp_all add: holds_exec)

lemma rNext_value:
  assumes "0 < fst (argsReader_Len r)"
    and "Parser (dec (snd (argsReader_Len r))) = x # rest"
    and "\<forall>m. x \<noteq> ErrorReply m"
    and "Decoder_Decode c v (x # rest) = ((None, g), rest)"
  shows "argsReader_Next c v r =
           ((True, g), r\<lparr>dec := (dec (snd (argsReader_Len r)))
               \<lparr>Parser := rest, dec_err := None, dec_cnt := dec_cnt (dec (snd (argsReader_Len r))) + 1\<rparr>\<rparr>)"
proof -
  from assms(1) have e: "err r = None" by (auto simp: argsReader_Len_def split: if_splits)
  obtain n d where L: "StreamDecoder_Len (dec r) = (n, d)" by (metis prod.exhaust)
  with assms(1,2) e have n: "n \<noteq> 0" and p: "Parser d = x # rest" and d: "dec (snd (argsReader_Len r)) = d"
    by (auto simp: argsReader_Len_def)
  note al = Len_alive[OF L n]
  from al n have ne: "dec_cnt d \<noteq> dec_max d" by auto
  from p assms(3) have t: "fst (ParseType (Parser d)) \<noteq> ErrorT" by (cases x) auto
  from e L n t al(1,2) ne p assms(4) d show ?thesis
    by (simp add: argsReader_Next_def Decode_settled)
qed

lemma Decode_nil: "(\<forall>m. x \<noteq> Fault m) \<Longrightarrow> Decoder_Decode c NilDst (x # rest) = ((None, None), rest)"
  by (cases x) auto

lemma Decode_bytes:
  "(\<forall>m. x \<noteq> Fault m) \<Longrightarrow> decodeBytes c x = Inr bs \<Longrightarrow>
     Decoder_Decode c (PtrTo bytes_type) (x # rest) = ((None, Some (BytesV bs)), rest)"
  by (cases x) (auto simp: convert_def bytes_type_def error_type_def)

lemma parse_dispatch: "parse c T b = dispatch c T b"
  by (cases "Kind T") (simp_all add: parse_def dispatch_def class_of_def unsupported_def)

lemma bNext_outside:
  assumes "class_of T = Outside"
  shows "\<not> fst (fst (byteArgsReader_Next c (PtrTo T) b))"
proof -
  obtain ok g r where i: "argsReader_Next c (PtrTo bytes_type) (argsReader b) = ((ok, g), r)"
    by (metis prod.exhaust)
  from bNext_cases[OF i, of "PtrTo T"] assms show ?thesis
    by (simp add: Let_def parse_dispatch dispatch_def)
qed

lemma bNext_value:
  assumes "0 < fst (argsReader_Len (argsReader b))"
    and "Parser (dec (snd (argsReader_Len (argsReader b)))) = x # rest"
    and "\<forall>m. x \<noteq> ErrorReply m" and "\<forall>m. x \<noteq> Fault m" and "decodeBytes c x = Inr bs"
  shows "fst (byteArgsReader_Next c (PtrTo T) b) =
           (case parse c T bs of Inl e \<Rightarrow> (False, None) | Inr y \<Rightarrow> (True, Some y)) \<and>
         err (argsReader (snd (byteArgsReader_Next c (PtrTo T) b))) =
           (case parse c T bs of Inl e \<Rightarrow> Some e | Inr y \<Rightarrow> None)"
proof -
  from assms(1) have e: "err (argsReader b) = None" by (auto simp: argsReader_Len_def split: if_splits)
  note n = rNext_value[OF assms(1,2,3) Decode_bytes[OF assms(4,5)]]
  from bNext_cases[OF n, of "PtrTo T"] e show ?thesis
    by (cases "parse c T bs") simp_all
qed

lemma loop_traced:
  "ParseArgs_loop (traced m) (s, t) dsts =
     (fst (ParseArgs_loop m s dsts),
      (snd (ParseArgs_loop m s dsts), t @ map CallNext (take (Suc (leading m s dsts)) dsts)))"
proof (induction dsts arbitrary: s t)
  case Nil
  then show ?case by simp
next
  case (Cons d ds)
  obtain ok g s' where n: "Next_m m d s = ((ok, g), s')" by (metis prod.exhaust)
  then have tn: "Next_m (traced m) d (s, t) = ((ok, g), (s', t @ [CallNext d]))"
    by (simp add: traced_def)
  show ?case
  proof (cases ok)
    case True
    with n tn Cons.IH[of s' "t @ [CallNext d]"] show ?thesis by (simp add: case_prod_beta)
  next
    case False
    with n tn show ?thesis by simp
  qed
qed

lemma loop_after:
  "snd (ParseArgs_loop m s dsts) = after m (map CallNext (take (Suc (leading m s dsts)) dsts)) s"
proof (induction dsts arbitrary: s)
  case Nil
  then show ?case by simp
next
  case (Cons d ds)
  obtain ok g s' where n: "Next_m m d s = ((ok, g), s')" by (metis prod.exhaust)
  show ?case
  proof (cases ok)
    case True
    with n Cons.IH[of s'] show ?thesis by (simp add: case_prod_beta exec.simps)
  next
    case False
    with n show ?thesis by (simp add: exec.simps)
  qed
qed

lemma loop_results:
  "map succeeded (results m (map CallNext (take (Suc (leading m s dsts)) dsts)) s) =
     replicate (leading m s dsts) True @ (if leading m s dsts < length dsts then [False] else [])"
proof (induction dsts arbitrary: s)
  case Nil
  then show ?case by simp
next
  case (Cons d ds)
  obtain ok g s' where n: "Next_m m d s = ((ok, g), s')" by (metis prod.exhaust)
  show ?case
  proof (cases ok)
    case True
    with n Cons.IH[of s'] show ?thesis by (simp add: exec.simps)
  next
    case False
    with n show ?thesis by (simp add: exec.simps)
  qed
qed

lemma leading_le: "leading m s dsts \<le> length dsts"
  by (induction dsts arbitrary: s) simp_all

lemma Close_traced:
  "Close_m (traced m) (s, t) = (fst (Close_m m s), (snd (Close_m m s), t @ [CallClose]))"
  by (simp add: traced_def case_prod_beta)

lemma ParseArgs_traced:
  "ParseArgs (traced m) (s, t) dsts =
     (fst (ParseArgs m s dsts),
      (snd (ParseArgs m s dsts), t @ map CallNext (take (Suc (leading m s dsts)) dsts) @ [CallClose]))"
  by (simp add: ParseArgs_def loop_traced Close_traced case_prod_beta)

lemma ParseArgs_Close:
  "fst (fst (ParseArgs m s dsts)) = fst (Close_m m (snd (ParseArgs_loop m s dsts))) \<and>
   snd (ParseArgs m s dsts) = snd (Close_m m (snd (ParseArgs_loop m s dsts)))"
  by (simp add: ParseArgs_def case_prod_beta)


lemma helpers_traced:
  "snd (snd (Int_args (traced m) (s, []))) = [CallNext (PtrTo int_type), CallClose]"
  "snd (snd (Int64_args (traced m) (s, []))) = [CallNext (PtrTo int64_type), CallClose]"
  "snd (snd (String_args (traced m) (s, []))) = [CallNext (PtrTo string_type), CallClose]"
  by (simp_all add: Int_args_def Int64_args_def String_args_def ParseArgs_traced case_prod_beta)

lemma helpers_Close:
  "snd (fst (Int_args m s)) = fst (Close_m m (snd (Next_m m (PtrTo int_type) s)))"
  "snd (Int_args m s) = snd (Close_m m (snd (Next_m m (PtrTo int_type) s)))"
  "snd (fst (Int64_args m s)) = fst (Close_m m (snd (Next_m m (PtrTo int64_type) s)))"
  "snd (Int64_args m s) = snd (Close_m m (snd (Next_m m (PtrTo int64_type) s)))"
  "snd (fst (String_args m s)) = fst (Close_m m (snd (Next_m m (PtrTo string_type) s)))"
  "snd (String_args m s) = snd (Close_m m (snd (Next_m m (PtrTo string_type) s)))"
  by (simp_all add: Int_args_def Int64_args_def String_args_def ParseArgs_def case_prod_beta)

lemma methods_Args:
  "Close_m (Args_methods c) = Close c" "Len_m (Args_methods c) = Len" "Next_m (Args_methods c) = Next c"
  by (simp_all add: Args_methods_def)

text \<open>A graceful shutdown with no work in flight returns no error, at once.\<close>

lemma Shutdown_graceful:
  "Shutdown (\<lambda>t. None) \<lparr>accepting = True, conns = (\<lambda>t. [])\<rparr> =
     Some ((None, 0), \<lparr>accepting = False, conns = (\<lambda>t. [])\<rparr>)"
  by (simp add: Shutdown_def Shutdown_wait.simps quiet_def)

section \<open>Properties of the discard of \<^verbatim>\<open>Close\<close>\<close>



















section \<open>The claims\<close>

text \<open>The definitions to unfold when a claim is evaluated on a concrete stream.\<close>

lemmas eval_defs =
  Args_methods_def exec.simps newArgsReader_def newByteArgsReader_def newStreamDecoder_def newArgsError_def
  argsReader_Next_def argsReader_Len_def argsReader_Close_def
  byteArgsReader_Next_def byteArgsReader_Len_def byteArgsReader_Close_def
  argsError_Next_def argsError_Len_def argsError_Close_def
  StreamDecoder_Len_def StreamDecoder_init_def StreamDecoder_Decode_def StreamDecoder_Err_def
  Close_discard.simps convert_def plain_codec_def bytes_type_def error_type_def Let_def




text \<open>
  Claim C4. On a stream made by a constructor and used through any calls \<open>ks\<close>: once
  \<^verbatim>\<open>Close\<close> has returned, with an error or without, and whatever calls \<open>ks'\<close> follow,
  \<^verbatim>\<open>Len\<close> returns 0 and \<^verbatim>\<open>Next\<close> returns false for every destination. \<^verbatim>\<open>Len\<close> never
  exceeds what it returned on the new stream, which for a stream that starts with an
  array-length marker is the count the marker announces.
\<close>

theorem closed_stream_is_empty:
  assumes "fresh a0"
  shows
    "(\<forall>ks' v.
        fst (Len (after (Args_methods c) ks' (snd (Close c (after (Args_methods c) ks a0))))) = 0 \<and>
        \<not> fst (fst (Next c v (after (Args_methods c) ks' (snd (Close c (after (Args_methods c) ks a0))))))) \<and>
     fst (Len (after (Args_methods c) ks a0)) \<le> fst (Len a0) \<and>
     fst (Len (ArgsReader (newArgsReader (Array xs # rest) ch))) = int (length xs) \<and>
     fst (Len (ByteArgsReader (newByteArgsReader (Array xs # rest) ch))) = int (length xs)"
proof -
  let ?m = "Args_methods c"
  let ?a1 = "snd (Close c (after ?m ks a0))"
  have co: "coherent (after ?m ks a0)" using assms by (simp add: fresh_coherent coherent_after)
  have "coherent ?a1" using coherent_exec[OF co, of c CallClose] by (simp add: exec_Args)
  then have st: "stuck ?a1" by (simp add: coherent_def Close_result)
  have "fst (Len (after ?m ks' ?a1)) = 0 \<and> \<not> fst (fst (Next c v (after ?m ks' ?a1)))" for ks' v
    using stuck_after[OF st, of c ks'] by (simp add: Len_stuck Next_stuck)
  then show ?thesis
    using Len_after_le[OF assms, of c ks] Len_array[of xs rest ch] by blast
qed

text \<open>Claim C4, on a byte-backed request of two values, one of them read before \<^verbatim>\<open>Close\<close>.\<close>

theorem closed_stream_is_empty_witness:
  "fresh (ByteArgsReader (newByteArgsReader [Array [BulkString ''k'', BulkString ''v'']] None)) \<and>
   fst (Len (after (Args_methods plain_codec) [CallLen]
     (snd (Close plain_codec (after (Args_methods plain_codec) [CallNext (PtrTo string_type)]
        (ByteArgsReader (newByteArgsReader [Array [BulkString ''k'', BulkString ''v'']] None))))))) = 0 \<and>
   fst (Len (after (Args_methods plain_codec) [CallNext (PtrTo string_type)]
        (ByteArgsReader (newByteArgsReader [Array [BulkString ''k'', BulkString ''v'']] None)))) = 1 \<and>
   fst (Len (ByteArgsReader (newByteArgsReader [Array [BulkString ''k'', BulkString ''v'']] None))) = 2"
proof -
  have f: "fresh (ByteArgsReader (newByteArgsReader [Array [BulkString ''k'', BulkString ''v'']] None))"
    by (auto simp: fresh_def)
  show ?thesis
    using f closed_stream_is_empty[OF f, of plain_codec "[CallNext (PtrTo string_type)]"]
    by (simp add: eval_defs parse_def parseString_def string_type_def)
qed

text \<open>
  Claim C7. On a stream made by a constructor and used through any calls \<open>ks\<close>, \<^verbatim>\<open>Len\<close>
  returns the number of values remaining to be read: what it returned on the new stream
  less one for every \<^verbatim>\<open>Next\<close>, as long as every \<^verbatim>\<open>Next\<close> returned true and \<^verbatim>\<open>Close\<close> was
  not called, and 0 from then on. \<^verbatim>\<open>Len\<close> changes nothing that can be observed: the
  results of the calls of \<^verbatim>\<open>Next\<close> and \<^verbatim>\<open>Close\<close> in \<open>ks\<close> are those of \<open>ks\<close> with its calls
  of \<^verbatim>\<open>Len\<close> left out; \<^verbatim>\<open>Len\<close> leaves the stream's error, its done channel and its closed
  flag as they are, and a second \<^verbatim>\<open>Len\<close> returns the same count and changes nothing at
  all.
\<close>

theorem Len_counts_and_changes_nothing:
  assumes "fresh a0"
  shows
    "fst (Len (after (Args_methods c) ks a0)) =
       (if reading (results (Args_methods c) ks a0)
        then fst (Len a0) - int (reads (results (Args_methods c) ks a0)) else 0) \<and>
     [r \<leftarrow> results (Args_methods c) ks a0. \<not> is_LenR r] =
       results (Args_methods c) [k \<leftarrow> ks. k \<noteq> CallLen] a0 \<and>
     stream_err (snd (Len (after (Args_methods c) ks a0))) = stream_err (after (Args_methods c) ks a0) \<and>
     sent (snd (Len (after (Args_methods c) ks a0))) = sent (after (Args_methods c) ks a0) \<and>
     closed (snd (Len (after (Args_methods c) ks a0))) = closed (after (Args_methods c) ks a0) \<and>
     Len (snd (Len (after (Args_methods c) ks a0))) =
       (fst (Len (after (Args_methods c) ks a0)), snd (Len (after (Args_methods c) ks a0)))"
  using Len_after[OF fresh_coherent[OF assms], of c ks] results_without_Len[of a0 a0 c ks]
    Len_frame[of "after (Args_methods c) ks a0"] Len_Len[of "after (Args_methods c) ks a0"]
  by simp

text \<open>Claim C7, on a reply of three integers, with \<^verbatim>\<open>Len\<close> called before and after a \<^verbatim>\<open>Next\<close>.\<close>

theorem Len_counts_witness:
  "fresh (ArgsReader (newArgsReader [Array [Integer 1, Integer 2, Integer 3]] None)) \<and>
   fst (Len (after (Args_methods plain_codec) [CallLen, CallNext (PtrTo int_type), CallLen]
     (ArgsReader (newArgsReader [Array [Integer 1, Integer 2, Integer 3]] None)))) = 2 \<and>
   results (Args_methods plain_codec) [CallNext (PtrTo int_type)]
     (ArgsReader (newArgsReader [Array [Integer 1, Integer 2, Integer 3]] None)) =
   [NextR True (Some (OtherV (Integer 1)))]"
proof -
  have f: "fresh (ArgsReader (newArgsReader [Array [Integer 1, Integer 2, Integer 3]] None))"
    by (auto simp: fresh_def)
  show ?thesis
    using f Len_counts_and_changes_nothing[OF f, of plain_codec "[CallLen, CallNext (PtrTo int_type), CallLen]"]
    by (simp add: eval_defs int_type_def)
qed

text \<open>
  Claim C2. Of a stream, in any state, with values remaining (so with no prior error)
  whose next value is a RESP error value: \<^verbatim>\<open>Next\<close>, whatever its destination, returns
  false and stores nothing, and the stream's error is that RESP error; whatever calls
  \<open>ks\<close> follow, \<^verbatim>\<open>Next\<close> returns false and \<^verbatim>\<open>Close\<close> returns that same error.
\<close>

theorem error_value_becomes_sticky_error:
  assumes "0 < fst (Len a)" and "next_value a = Some (ErrorReply msg)"
  shows
    "fst (Next c v a) = (False, None) \<and>
     stream_err (snd (Next c v a)) = Some (RespError msg) \<and>
     (\<forall>ks v'.
        \<not> fst (fst (Next c v' (after (Args_methods c) ks (snd (Next c v a))))) \<and>
        fst (Close c (after (Args_methods c) ks (snd (Next c v a)))) = Some (RespError msg))"
proof -
  let ?a1 = "snd (Next c v a)"
  from Next_error_value[OF assms, of c v]
  have n: "fst (Next c v a) = (False, None)" and e: "stream_err ?a1 = Some (RespError msg)" by auto
  have "\<not> fst (fst (Next c v' (after (Args_methods c) ks ?a1))) \<and>
        fst (Close c (after (Args_methods c) ks ?a1)) = Some (RespError msg)" for ks v'
    using err_after[OF e, of c ks] Next_stuck[of "after (Args_methods c) ks ?a1" c v']
    by (simp add: Close_err_sticky stuck_def)
  with n e show ?thesis by blast
qed

text \<open>Claim C2, on a byte-backed request whose second value is an error value.\<close>

theorem error_value_witness:
  "0 < fst (Len (ByteArgsReader (newByteArgsReader [Array [BulkString ''a'', ErrorReply ''ERR boom'', BulkString ''b'']] (Some [])))) \<and>
   next_value (after (Args_methods plain_codec) [CallNext (PtrTo string_type)]
      (ByteArgsReader (newByteArgsReader [Array [BulkString ''a'', ErrorReply ''ERR boom'', BulkString ''b'']] (Some []))))
     = Some (ErrorReply ''ERR boom'') \<and>
   fst (Close plain_codec (snd (Next plain_codec (PtrTo string_type)
     (after (Args_methods plain_codec) [CallNext (PtrTo string_type)]
      (ByteArgsReader (newByteArgsReader [Array [BulkString ''a'', ErrorReply ''ERR boom'', BulkString ''b'']] (Some []))))))) =
     Some (RespError ''ERR boom'')"
proof -
  let ?a = "after (Args_methods plain_codec) [CallNext (PtrTo string_type)]
      (ByteArgsReader (newByteArgsReader [Array [BulkString ''a'', ErrorReply ''ERR boom'', BulkString ''b'']] (Some [])))"
  have l: "0 < fst (Len ?a)"
    by (simp add: eval_defs parse_def parseString_def string_type_def)
  have n: "next_value ?a = Some (ErrorReply ''ERR boom'')"
    by (simp add: next_value_def eval_defs parse_def parseString_def string_type_def)
  show ?thesis
    using l n error_value_becomes_sticky_error[OF l n, of plain_codec "PtrTo string_type"]
    by (simp add: eval_defs parse_def parseString_def string_type_def)
qed

text \<open>
  Claim C3. On a stream made by a constructor and used through any calls \<open>ks\<close>: once
  \<^verbatim>\<open>Next\<close> has returned false, whatever calls \<open>ks'\<close> follow, every \<^verbatim>\<open>Len\<close> returns 0 and
  every \<^verbatim>\<open>Next\<close> returns false. When values remained, so that the call failed to decode
  one, the stream holds an error from then on, and \<^verbatim>\<open>Close\<close> returns that error.
\<close>

theorem failed_Next_is_sticky:
  assumes "fresh a0"
    and "\<not> fst (fst (Next c v (after (Args_methods c) ks a0)))"
  shows
    "(\<forall>ks' v'.
        fst (Len (after (Args_methods c) ks' (snd (Next c v (after (Args_methods c) ks a0))))) = 0 \<and>
        \<not> fst (fst (Next c v' (after (Args_methods c) ks' (snd (Next c v (after (Args_methods c) ks a0))))))) \<and>
     (0 < fst (Len (after (Args_methods c) ks a0)) \<longrightarrow>
        (\<exists>e. holds e (snd (Next c v (after (Args_methods c) ks a0))) \<and>
           (\<forall>ks'.
              holds e (after (Args_methods c) ks' (snd (Next c v (after (Args_methods c) ks a0)))) \<and>
              fst (Close c (after (Args_methods c) ks' (snd (Next c v (after (Args_methods c) ks a0))))) =
                Some e)))"
proof -
  let ?a = "after (Args_methods c) ks a0"
  let ?a1 = "snd (Next c v ?a)"
  have st: "stuck ?a1" using assms(2) by (rule Next_fail)
  have 1: "fst (Len (after (Args_methods c) ks' ?a1)) = 0 \<and>
           \<not> fst (fst (Next c v' (after (Args_methods c) ks' ?a1)))" for ks' v'
    using stuck_after[OF st, of c ks'] by (simp add: Len_stuck Next_stuck)
  have 2: "\<exists>e. holds e ?a1 \<and>
             (\<forall>ks'. holds e (after (Args_methods c) ks' ?a1) \<and>
                    fst (Close c (after (Args_methods c) ks' ?a1)) = Some e)"
    if l: "0 < fst (Len ?a)"
  proof -
    have co: "coherent ?a" using assms(1) by (simp add: fresh_coherent coherent_after)
    have "\<not> stuck ?a" using l Len_stuck[of ?a] by auto
    with co have "\<not> closed ?a" by (auto simp: coherent_def)
    from Next_fail_holds[OF l this assms(2)] obtain e where h: "holds e ?a1" by blast
    have "holds e (after (Args_methods c) ks' ?a1) \<and>
          fst (Close c (after (Args_methods c) ks' ?a1)) = Some e" for ks'
      using holds_after[OF h, of c ks'] by (simp add: holds_Close)
    with h show ?thesis by blast
  qed
  from 1 2 show ?thesis by blast
qed

text \<open>Claim C3, on a byte-backed request whose first value is read as an integer and is none.\<close>

theorem failed_Next_witness:
  "fresh (ByteArgsReader (newByteArgsReader [Array [BulkString ''abc'', BulkString ''7'']] None)) \<and>
   0 < fst (Len (after (Args_methods plain_codec) []
      (ByteArgsReader (newByteArgsReader [Array [BulkString ''abc'', BulkString ''7'']] None)))) \<and>
   \<not> fst (fst (Next plain_codec (PtrTo int_type) (after (Args_methods plain_codec) []
      (ByteArgsReader (newByteArgsReader [Array [BulkString ''abc'', BulkString ''7'']] None))))) \<and>
   fst (Len (snd (Next plain_codec (PtrTo int_type)
      (ByteArgsReader (newByteArgsReader [Array [BulkString ''abc'', BulkString ''7'']] None))))) = 0 \<and>
   fst (Close plain_codec (snd (Next plain_codec (PtrTo int_type)
      (ByteArgsReader (newByteArgsReader [Array [BulkString ''abc'', BulkString ''7'']] None))))) =
     Some (Failure ''invalid syntax'')"
proof -
  let ?a0 = "ByteArgsReader (newByteArgsReader [Array [BulkString ''abc'', BulkString ''7'']] None)"
  have f: "fresh ?a0" by (auto simp: fresh_def)
  have l: "0 < fst (Len (after (Args_methods plain_codec) [] ?a0))" by (simp add: eval_defs)
  have n: "\<not> fst (fst (Next plain_codec (PtrTo int_type) (after (Args_methods plain_codec) [] ?a0)))"
    by (simp add: eval_defs parse_def parseInt_def int_type_def parse_decimal_def digit_def)
  show ?thesis
    using f l n failed_Next_is_sticky[OF f n]
    by (simp add: eval_defs parse_def parseInt_def int_type_def parse_decimal_def digit_def)
qed

text \<open>
  Claim C10, as stated, fails: on a stream with one value remaining and no prior error,
  whose next value is a RESP error value, \<^verbatim>\<open>Next\<close> with a nil destination returns false
  and \<^verbatim>\<open>Len\<close> falls from 1 to 0.
\<close>

theorem Next_nil_counterexample:
  "0 < fst (Len (ArgsReader (newArgsReader [Array [ErrorReply ''ERR unknown command'']] None))) \<and>
   stream_err (ArgsReader (newArgsReader [Array [ErrorReply ''ERR unknown command'']] None)) = None \<and>
   fst (Next plain_codec NilDst
     (ArgsReader (newArgsReader [Array [ErrorReply ''ERR unknown command'']] None))) = (False, None) \<and>
   fst (Len (ArgsReader (newArgsReader [Array [ErrorReply ''ERR unknown command'']] None))) = 1 \<and>
   fst (Len (snd (Next plain_codec NilDst
     (ArgsReader (newArgsReader [Array [ErrorReply ''ERR unknown command'']] None))))) = 0"
  by (simp add: eval_defs)


text \<open>
  Claim C10, amended. Of a stream, in any state, with at least one value remaining (so
  with no prior error) whose next value is not a RESP error value and can be read (from
  the wire, and into the scratch buffer by a byte-backed stream): \<^verbatim>\<open>Next\<close> with a nil
  destination returns true, stores nothing and leaves the stream without error, \<^verbatim>\<open>Len\<close>
  is one less, and the value is gone from the wire.
\<close>

theorem Next_nil_discards_a_value:
  assumes "0 < fst (Len a)" and "next_value a = Some x" and "discardable c a x"
  shows
    "fst (Next c NilDst a) = (True, None) \<and>
     fst (Len (snd (Next c NilDst a))) = fst (Len a) - 1 \<and>
     stream_err (snd (Next c NilDst a)) = None \<and>
     map_option Parser (decoder (snd (Next c NilDst a))) =
       map_option (\<lambda>d. tl (Parser d)) (decoder (snd (Len a)))"
proof (cases a)
  case (ArgsError e)
  with assms show ?thesis by (simp add: argsError_Len_def)
next
  case (ArgsReader r)
  with assms obtain rest where l: "0 < fst (argsReader_Len r)"
      and p: "Parser (dec (snd (argsReader_Len r))) = x # rest"
    by (auto simp: next_value_def split: list.splits)
  from assms(3) have x: "\<forall>m. x \<noteq> ErrorReply m" "\<forall>m. x \<noteq> Fault m"
    by (auto simp: discardable_def)
  from l have e: "err r = None" by (auto simp: argsReader_Len_def split: if_splits)
  note n = rNext_value[OF l p x(1) Decode_nil[OF x(2)], of c]
  from rNext_ok[of c NilDst r None, OF n] n p e ArgsReader show ?thesis by simp
next
  case (ByteArgsReader b)
  with assms obtain rest where l: "0 < fst (argsReader_Len (argsReader b))"
      and p: "Parser (dec (snd (argsReader_Len (argsReader b)))) = x # rest"
    by (auto simp: next_value_def byteArgsReader_Len_def case_prod_beta split: list.splits)
  from assms(3) ByteArgsReader obtain bs where x: "\<forall>m. x \<noteq> ErrorReply m" "\<forall>m. x \<noteq> Fault m"
      and bs: "decodeBytes c x = Inr bs"
    by (cases x; cases "decodeBytes c x") (auto simp: discardable_def)
  from l have e: "err (argsReader b) = None" by (auto simp: argsReader_Len_def split: if_splits)
  note n = rNext_value[OF l p x(1) Decode_bytes[OF x(2) bs]]
  from rNext_ok[of c "PtrTo bytes_type" "argsReader b", OF n] bNext_cases[OF n, of NilDst] n p e ByteArgsReader
  show ?thesis by (simp add: byteArgsReader_Len_def case_prod_beta)
qed

text \<open>Claim C10, amended, on a byte-backed request of two bulk strings.\<close>

theorem Next_nil_witness:
  "0 < fst (Len (ByteArgsReader (newByteArgsReader [Array [BulkString ''k'', BulkString ''v'']] None))) \<and>
   next_value (ByteArgsReader (newByteArgsReader [Array [BulkString ''k'', BulkString ''v'']] None)) =
     Some (BulkString ''k'') \<and>
   discardable plain_codec (ByteArgsReader (newByteArgsReader [Array [BulkString ''k'', BulkString ''v'']] None))
     (BulkString ''k'') \<and>
   fst (Next plain_codec NilDst
     (ByteArgsReader (newByteArgsReader [Array [BulkString ''k'', BulkString ''v'']] None))) = (True, None) \<and>
   fst (Len (snd (Next plain_codec NilDst
     (ByteArgsReader (newByteArgsReader [Array [BulkString ''k'', BulkString ''v'']] None))))) = 1"
proof -
  let ?a = "ByteArgsReader (newByteArgsReader [Array [BulkString ''k'', BulkString ''v'']] None)"
  have l: "0 < fst (Len ?a)" by (simp add: eval_defs)
  have n: "next_value ?a = Some (BulkString ''k'')" by (simp add: next_value_def eval_defs)
  have d: "discardable plain_codec ?a (BulkString ''k'')" by (simp add: discardable_def plain_codec_def)
  show ?thesis
    using l n d Next_nil_discards_a_value[OF l n d] by (simp add: eval_defs)
qed

text \<open>
  Claim C6, as stated, fails: on a byte-backed stream with no value left, \<^verbatim>\<open>Next\<close> with a
  destination of a struct type returns false and the stream has no error at all.
\<close>

theorem Next_unsupported_counterexample:
  "class_of request_type = Outside \<and>
   fst (Next plain_codec (PtrTo request_type) (ByteArgsReader (newByteArgsReader [Array []] None))) = (False, None) \<and>
   stream_err (snd (Next plain_codec (PtrTo request_type) (ByteArgsReader (newByteArgsReader [Array []] None)))) = None"
  by (simp add: eval_defs class_of_def request_type_def)


text \<open>
  Claim C6, amended. On a byte-backed stream, \<^verbatim>\<open>Next\<close> returns false for every
  destination whose kind is outside the set {boolean, signed integer, unsigned integer,
  floating point, string, byte slice}. Whenever it has read a value (values remain, so
  there is no prior error, and the next value is not a RESP error value and decodes into
  the scratch buffer as \<open>bs\<close>), it converts \<open>bs\<close> by the dispatch on the destination's kind
  over exactly that set: it returns true with the converted value, or false with the
  conversion's error as the stream's error, which for a kind outside the set is the
  error that names the destination type.
\<close>

theorem Next_dispatches_on_the_destination_kind:
  assumes "0 < fst (Len (ByteArgsReader b))"
    and "next_value (ByteArgsReader b) = Some x"
    and "discardable c (ByteArgsReader b) x"
    and "decodeBytes c x = Inr bs"
  shows
    "fst (Next c (PtrTo T) (ByteArgsReader b)) =
       (case dispatch c T bs of Inl e \<Rightarrow> (False, None) | Inr y \<Rightarrow> (True, Some y)) \<and>
     stream_err (snd (Next c (PtrTo T) (ByteArgsReader b))) =
       (case dispatch c T bs of Inl e \<Rightarrow> Some e | Inr y \<Rightarrow> None) \<and>
     parse c T bs = dispatch c T bs \<and>
     (class_of T = Outside \<longrightarrow>
        fst (Next c (PtrTo T) (ByteArgsReader b)) = (False, None) \<and>
        stream_err (snd (Next c (PtrTo T) (ByteArgsReader b))) =
          Some (Failure (''unsupported output type for value in argument of a redis command: '' @ TypeString T))) \<and>
     (\<forall>b' T'. class_of T' = Outside \<longrightarrow> \<not> fst (fst (Next c (PtrTo T') (ByteArgsReader b'))))"
proof -
  from assms(1,2) obtain rest where l: "0 < fst (argsReader_Len (argsReader b))"
      and p: "Parser (dec (snd (argsReader_Len (argsReader b)))) = x # rest"
    by (auto simp: next_value_def byteArgsReader_Len_def case_prod_beta split: list.splits)
  from assms(3) have x: "\<forall>m. x \<noteq> ErrorReply m" "\<forall>m. x \<noteq> Fault m"
    by (auto simp: discardable_def)
  note v = bNext_value[OF l p x assms(4), of T]
  have 1: "fst (Next c (PtrTo T) (ByteArgsReader b)) =
       (case dispatch c T bs of Inl e \<Rightarrow> (False, None) | Inr y \<Rightarrow> (True, Some y))"
    using v by (simp add: parse_dispatch)
  have 2: "stream_err (snd (Next c (PtrTo T) (ByteArgsReader b))) =
       (case dispatch c T bs of Inl e \<Rightarrow> Some e | Inr y \<Rightarrow> None)"
    using v by (simp add: parse_dispatch)
  have 3: "class_of T = Outside \<Longrightarrow>
        fst (Next c (PtrTo T) (ByteArgsReader b)) = (False, None) \<and>
        stream_err (snd (Next c (PtrTo T) (ByteArgsReader b))) =
          Some (Failure (''unsupported output type for value in argument of a redis command: '' @ TypeString T))"
    using 1 2 by (simp add: dispatch_def)
  have 4: "class_of T' = Outside \<Longrightarrow> \<not> fst (fst (Next c (PtrTo T') (ByteArgsReader b')))" for b' T'
    using bNext_outside[of T' c b'] by simp
  from 1 2 3 4 show ?thesis by (simp add: parse_dispatch)
qed


text \<open>Claim C6, amended, on a request holding the bulk string 42, read as an int and as a struct.\<close>

theorem Next_dispatch_witness:
  "0 < fst (Len (ByteArgsReader (newByteArgsReader [Array [BulkString ''42'']] None))) \<and>
   next_value (ByteArgsReader (newByteArgsReader [Array [BulkString ''42'']] None)) = Some (BulkString ''42'') \<and>
   discardable plain_codec (ByteArgsReader (newByteArgsReader [Array [BulkString ''42'']] None)) (BulkString ''42'') \<and>
   decodeBytes plain_codec (BulkString ''42'') = Inr ''42'' \<and>
   fst (Next plain_codec (PtrTo int_type) (ByteArgsReader (newByteArgsReader [Array [BulkString ''42'']] None))) =
     (True, Some (IntV 42)) \<and>
   class_of request_type = Outside \<and>
   stream_err (snd (Next plain_codec (PtrTo request_type)
     (ByteArgsReader (newByteArgsReader [Array [BulkString ''42'']] None)))) =
     Some (Failure ''unsupported output type for value in argument of a redis command: redis.Request'')"
proof -
  let ?a = "newByteArgsReader [Array [BulkString ''42'']] None"
  have l: "0 < fst (Len (ByteArgsReader ?a))" by (simp add: eval_defs)
  have n: "next_value (ByteArgsReader ?a) = Some (BulkString ''42'')" by (simp add: next_value_def eval_defs)
  have d: "discardable plain_codec (ByteArgsReader ?a) (BulkString ''42'')"
    by (simp add: discardable_def plain_codec_def)
  have b: "decodeBytes plain_codec (BulkString ''42'') = Inr ''42''" by (simp add: plain_codec_def)
  have o: "class_of request_type = Outside" by (simp add: class_of_def request_type_def)
  have i: "dispatch plain_codec int_type ''42'' = Inr (IntV 42)"
    by (simp add: dispatch_def class_of_def int_type_def parseInt_def plain_codec_def parse_decimal_def digit_def)
  have r1: "fst (Next plain_codec (PtrTo int_type) (ByteArgsReader ?a)) = (True, Some (IntV 42))"
    using Next_dispatches_on_the_destination_kind[OF l n d b, of int_type] i by simp
  have r2: "stream_err (snd (Next plain_codec (PtrTo request_type) (ByteArgsReader ?a))) =
     Some (Failure (''unsupported output type for value in argument of a redis command: '' @ TypeString request_type))"
    using Next_dispatches_on_the_destination_kind[OF l n d b, of request_type] o by blast
  have t: "TypeString request_type = ''redis.Request''" by (simp add: request_type_def)
  show ?thesis
    using l n d b o r1 r2 unfolding t by simp
qed

text \<open>
  Claim C9. For every implementation \<open>m\<close> of \<^verbatim>\<open>Args\<close>, every state \<open>s\<close> of it and every list
  of destinations: the calls \<^verbatim>\<open>ParseArgs\<close> makes are \<^verbatim>\<open>Next\<close> on the destinations in order,
  up to and with the first for which \<^verbatim>\<open>Next\<close> returns false (all of them when none does),
  then \<^verbatim>\<open>Close\<close>, once; recording the calls changes neither the result nor the state;
  \<^verbatim>\<open>ParseArgs\<close> returns what that \<^verbatim>\<open>Close\<close> returns. \<^verbatim>\<open>Int\<close>, \<^verbatim>\<open>Int64\<close> and \<^verbatim>\<open>String\<close> call
  \<^verbatim>\<open>Next\<close> once and then \<^verbatim>\<open>Close\<close> once, whether a value was parsed or not, and return
  the error of that \<^verbatim>\<open>Close\<close>; on the three implementations of this package the list is
  closed afterwards.
\<close>

theorem ParseArgs_reads_in_order_and_closes_once:
  "ParseArgs (traced m) (s, []) dsts =
     (fst (ParseArgs m s dsts),
      (snd (ParseArgs m s dsts), map CallNext (take (Suc (leading m s dsts)) dsts) @ [CallClose])) \<and>
   leading m s dsts \<le> length dsts \<and>
   map succeeded (results m (map CallNext (take (Suc (leading m s dsts)) dsts)) s) =
     replicate (leading m s dsts) True @ (if leading m s dsts < length dsts then [False] else []) \<and>
   fst (fst (ParseArgs m s dsts)) =
     fst (Close_m m (after m (map CallNext (take (Suc (leading m s dsts)) dsts)) s)) \<and>
   snd (ParseArgs m s dsts) =
     snd (Close_m m (after m (map CallNext (take (Suc (leading m s dsts)) dsts)) s)) \<and>
   snd (snd (Int_args (traced m) (s, []))) = [CallNext (PtrTo int_type), CallClose] \<and>
   snd (snd (Int64_args (traced m) (s, []))) = [CallNext (PtrTo int64_type), CallClose] \<and>
   snd (snd (String_args (traced m) (s, []))) = [CallNext (PtrTo string_type), CallClose] \<and>
   snd (fst (Int_args m s)) = fst (Close_m m (snd (Next_m m (PtrTo int_type) s))) \<and>
   snd (fst (Int64_args m s)) = fst (Close_m m (snd (Next_m m (PtrTo int64_type) s))) \<and>
   snd (fst (String_args m s)) = fst (Close_m m (snd (Next_m m (PtrTo string_type) s))) \<and>
   closed (snd (ParseArgs (Args_methods c) a dsts)) \<and>
   closed (snd (Int_args (Args_methods c) a)) \<and>
   closed (snd (Int64_args (Args_methods c) a)) \<and>
   closed (snd (String_args (Args_methods c) a))"
proof -
  have 1: "ParseArgs (traced m) (s, []) dsts =
     (fst (ParseArgs m s dsts),
      (snd (ParseArgs m s dsts), map CallNext (take (Suc (leading m s dsts)) dsts) @ [CallClose]))"
    using ParseArgs_traced[of m s "[]" dsts] by simp
  have 2: "fst (fst (ParseArgs m s dsts)) =
       fst (Close_m m (after m (map CallNext (take (Suc (leading m s dsts)) dsts)) s)) \<and>
     snd (ParseArgs m s dsts) =
       snd (Close_m m (after m (map CallNext (take (Suc (leading m s dsts)) dsts)) s))"
    using ParseArgs_Close[of m s dsts] by (simp add: loop_after)
  have 3: "closed (snd (ParseArgs (Args_methods c) a dsts))"
    using ParseArgs_Close[of "Args_methods c" a dsts] by (simp add: methods_Args Close_result)
  have 4: "closed (snd (Int_args (Args_methods c) a))" "closed (snd (Int64_args (Args_methods c) a))"
     "closed (snd (String_args (Args_methods c) a))"
    by (simp_all add: helpers_Close methods_Args Close_result)
  note 5 = helpers_traced[of m s] helpers_Close(1,3,5)[of m s] leading_le[of m s dsts] loop_results[of m s dsts]
  from 1 2 3 4 5 show ?thesis
    by blast
qed

text \<open>
  Claim C9, on a byte-backed request of two bulk strings parsed into a string, an int and
  a string: the second \<^verbatim>\<open>Next\<close> fails, the third is never called, \<^verbatim>\<open>Close\<close> is.
\<close>

theorem ParseArgs_witness:
  "snd (snd (ParseArgs (traced (Args_methods plain_codec))
      (ByteArgsReader (newByteArgsReader [Array [BulkString ''k'', BulkString ''v'']] None), [])
      [PtrTo string_type, PtrTo int_type, PtrTo string_type])) =
     [CallNext (PtrTo string_type), CallNext (PtrTo int_type), CallClose] \<and>
   leading (Args_methods plain_codec)
      (ByteArgsReader (newByteArgsReader [Array [BulkString ''k'', BulkString ''v'']] None))
      [PtrTo string_type, PtrTo int_type, PtrTo string_type] = 1 \<and>
   fst (ParseArgs (Args_methods plain_codec)
      (ByteArgsReader (newByteArgsReader [Array [BulkString ''k'', BulkString ''v'']] None))
      [PtrTo string_type, PtrTo int_type, PtrTo string_type]) =
     (Some (Failure ''invalid syntax''), [Some (StringV ''k''), None])"
proof -
  let ?m = "Args_methods plain_codec"
  let ?a = "ByteArgsReader (newByteArgsReader [Array [BulkString ''k'', BulkString ''v'']] None)"
  let ?ds = "[PtrTo string_type, PtrTo int_type, PtrTo string_type]"
  have l: "leading ?m ?a ?ds = 1"
    by (simp add: eval_defs parse_def parseString_def parseInt_def string_type_def int_type_def
          parse_decimal_def digit_def)
  have r: "fst (ParseArgs ?m ?a ?ds) = (Some (Failure ''invalid syntax''), [Some (StringV ''k''), None])"
    by (simp add: ParseArgs_def eval_defs parse_def parseString_def parseInt_def string_type_def int_type_def
          parse_decimal_def digit_def)
  show ?thesis
    using ParseArgs_reads_in_order_and_closes_once[of ?m ?a ?ds] l r by simp
qed

text \<open>
  Claim C8. \<^verbatim>\<open>Shutdown\<close> called with a context that is already canceled returns, and
  returns that context's error, after waiting zero ticks, whatever the states of the
  connections' dispatch loops are and will be; it has stopped accepting connections.
\<close>

theorem Shutdown_canceled_returns_at_once:
  assumes "ctx 0 = Some e"
  shows "Shutdown ctx srv = Some ((Some e, 0), srv\<lparr>accepting := False\<rparr>)"
  using assms by (simp add: Shutdown_def Shutdown_wait.simps)

text \<open>Claim C8, on a server with a connection that dispatches forever.\<close>

theorem Shutdown_canceled_witness:
  "(\<lambda>t. Some Canceled) (0::nat) = Some Canceled \<and>
   Shutdown (\<lambda>t. Some Canceled) \<lparr>accepting = True, conns = (\<lambda>t. [Dispatching, Idle])\<rparr> =
     Some ((Some Canceled, 0), \<lparr>accepting = False, conns = (\<lambda>t. [Dispatching, Idle])\<rparr>)"
  using Shutdown_canceled_returns_at_once[of "\<lambda>t. Some Canceled" Canceled
      "\<lparr>accepting = True, conns = (\<lambda>t. [Dispatching, Idle])\<rparr>"]
  by simp

end
